theory Spec2Isabelle
  imports Complex_Main "HOL-Library.Word" "HOL-Library.Multiset"
begin

unbundle bit_operations_syntax

section \<open>The photometer of reference.cpp\<close>

text \<open>
  The program decodes two-byte sensor packets into samples (a lower or an upper
  bound on the illuminance, valid from \<open>start\<close> up to \<open>end\<close>), stores them in two
  multimaps keyed by their end, and folds them into an estimate.

  Numbers: a C++ \<open>double\<close> is modelled as a \<open>real\<close>. The engine only compares and
  selects doubles, and on finite doubles \<open><\<close>, \<open><=\<close> and \<open>==\<close> are those of the
  reals; its one computation, the final \<open>0.5*(lower + upper)\<close>, is taken in the
  reals. The codec computes with doubles, and there the rounding matters: every
  arithmetic operation of the codec is the operation of the reals followed by
  \<open>fl\<close>, the rounding of binary64. \<open>std::log\<close> is a library function and not
  part of the repository: it is the parameter \<open>log_d\<close> of \<open>raw\<close>. NaN and the
  infinities are not values of the model; where the codec can produce one, the
  result is \<open>None\<close>. The bit-fields of the wire struct are words of their width,
  and the members \<open>start_\<close>, \<open>end_\<close>, ... of \<open>Sample\<close> are the fields \<open>start_m\<close>,
  \<open>end_m\<close>, ...
\<close>

type_synonym double = real

subsection \<open>Double arithmetic\<close>

text \<open>
  \<open>fl x\<close> is the double nearest to \<open>x\<close>: a multiple of the unit \<open>2^(e - 52)\<close>,
  where \<open>2^e \<le> |x| < 2^(e + 1)\<close> and \<open>e\<close> is at least -1022 (below that the
  doubles are subnormal and the unit stays \<open>2^(-1074)\<close>); of the two nearest
  multiples the nearer one, and the even one on a tie. The exponent has no upper
  limit here: a result of magnitude above \<open>double_max\<close> stands for an infinity
  (\<open>finite_d\<close>).
\<close>

definition round_even :: "real \<Rightarrow> int" where
  "round_even y =
     (let n = \<lfloor>y\<rfloor>; f = y - real_of_int n
      in if f < 1 / 2 then n else if 1 / 2 < f then n + 1 else if even n then n else n + 1)"

definition fl :: "real \<Rightarrow> double" where
  "fl x =
     (if x = 0 then 0
      else let e = max \<lfloor>log 2 \<bar>x\<bar>\<rfloor> (- 1022); u = 2 powr (real_of_int e - 52)
           in real_of_int (round_even (x / u)) * u)"

text \<open>The operators \<open>+\<close>, \<open>-\<close>, \<open>*\<close> and \<open>/\<close> on doubles.\<close>

definition add_d :: "double \<Rightarrow> double \<Rightarrow> double" where
  "add_d x y = fl (x + y)"

definition sub_d :: "double \<Rightarrow> double \<Rightarrow> double" where
  "sub_d x y = fl (x - y)"

definition mul_d :: "double \<Rightarrow> double \<Rightarrow> double" where
  "mul_d x y = fl (x * y)"

definition div_d :: "double \<Rightarrow> double \<Rightarrow> double" where
  "div_d x y = fl (x / y)"

text \<open>\<open>numeric_limits<double>::max()\<close> and \<open>lowest()\<close>.\<close>

definition double_max :: double where
  "double_max = (2 - 1 / 2 ^ 52) * 2 ^ 1023"

definition double_lowest :: double where
  "double_lowest = - double_max"

definition finite_d :: "double \<Rightarrow> bool" where
  "finite_d x = (\<bar>x\<bar> \<le> double_max)"

subsection \<open>RawSample: the wire struct\<close>

record RawSample =
  confidence :: "2 word"   \<comment> \<open>\<open>uint16_t confidence: 2\<close>\<close>
  clear :: "1 word"        \<comment> \<open>\<open>uint16_t clear: 1\<close>\<close>
  value_raw :: "8 word"    \<comment> \<open>\<open>int16_t value: 8\<close>, read as two's complement by \<open>sint\<close>\<close>
  sign :: "1 word"         \<comment> \<open>\<open>uint16_t sign: 1\<close>\<close>
  horizon :: "4 word"      \<comment> \<open>\<open>uint16_t horizon: 4\<close>\<close>

text \<open>
  \<open>50e3 + 390*value\<close>: the product is an \<open>int\<close>, converted to \<open>double\<close> for the sum.
  \<open>0.0165*(1u << horizon)\<close>: the literal is the double nearest to 0.0165, the
  shifted \<open>unsigned\<close> is converted to \<open>double\<close> for the product. Both conversions
  are exact.
\<close>

definition value_lx :: "RawSample \<Rightarrow> double" where
  "value_lx r = add_d 50000 (real_of_int (390 * sint (value_raw r)))"

definition horizon_s :: "RawSample \<Rightarrow> double" where
  "horizon_s r = mul_d (fl 0.0165) (real (2 ^ unat (horizon r)))"

subsection \<open>Sample\<close>

record Sample =
  start_m :: double
  end_m :: double
  sign_m :: bool
  value_m :: double
  clear_m :: bool
  confidence_m :: "8 word"

text \<open>\<open>Sample(double now, const RawSample &raw)\<close>.\<close>

definition Sample_of_raw :: "double \<Rightarrow> RawSample \<Rightarrow> Sample" where
  "Sample_of_raw now r =
     \<lparr> start_m = now,
       end_m = add_d now (horizon_s r),
       sign_m = (sign r \<noteq> 0),
       value_m = value_lx r,
       clear_m = (clear r \<noteq> 0),
       confidence_m = ucast (confidence r) \<rparr>"

text \<open>\<open>Sample(bool universal_sign)\<close>.\<close>

definition universal :: "bool \<Rightarrow> Sample" where
  "universal universal_sign =
     \<lparr> start_m = double_lowest,
       end_m = double_max,
       sign_m = universal_sign,
       value_m = (if universal_sign then 100000 else 0),
       clear_m = False,
       confidence_m = 0 \<rparr>"

definition universal_lower :: Sample where
  "universal_lower = universal False"

definition universal_upper :: Sample where
  "universal_upper = universal True"

definition conflicts :: "Sample \<Rightarrow> Sample \<Rightarrow> bool" where
  "conflicts s other =
     ((sign_m s \<and> \<not> sign_m other \<and> value_m s < value_m other) \<or>
      (\<not> sign_m s \<and> sign_m other \<and> value_m s > value_m other))"

definition is_superset_of :: "Sample \<Rightarrow> Sample \<Rightarrow> bool" where
  "is_superset_of s other =
     (end_m s \<ge> end_m other \<and>
      ((sign_m s \<and> sign_m other \<and> value_m s \<le> value_m other) \<or>
       (\<not> sign_m s \<and> \<not> sign_m other \<and> value_m s \<ge> value_m other)))"

definition overrides :: "Sample \<Rightarrow> Sample \<Rightarrow> bool" where
  "overrides s other =
     (if conflicts s other
      then confidence_m s > confidence_m other \<or>
           (confidence_m s = confidence_m other \<and> start_m s < start_m other)
      else False)"

definition resolve_lower :: "Sample \<Rightarrow> Sample \<Rightarrow> Sample" where
  "resolve_lower s other = (if value_m s > value_m other then s else other)"

definition resolve_upper :: "Sample \<Rightarrow> Sample \<Rightarrow> Sample" where
  "resolve_upper s other = (if value_m s < value_m other then s else other)"

subsection \<open>The multimap\<close>

text \<open>
  \<open>std::multimap<double, Sample>\<close> is the list of its entries in iteration order:
  ascending key, entries of equal key in insertion order. An iterator is the list
  of the entries from its position to \<open>cend()\<close>.
\<close>

type_synonym MapT = "(double \<times> Sample) list"

text \<open>\<open>m.upper_bound(k)\<close>: the first entry whose key is greater than \<open>k\<close>.\<close>

fun upper_bound :: "MapT \<Rightarrow> double \<Rightarrow> MapT" where
  "upper_bound [] k = []"
| "upper_bound (kv # m) k = (if k < fst kv then kv # m else upper_bound m k)"

text \<open>
  \<open>m.emplace(k, v)\<close>: the new entry goes to the upper bound of the entries of
  equal key.
\<close>

fun emplace :: "MapT \<Rightarrow> double \<Rightarrow> Sample \<Rightarrow> MapT" where
  "emplace [] k v = [(k, v)]"
| "emplace (kv # m) k v = (if k < fst kv then (k, v) # kv # m else kv # emplace m k v)"

subsection \<open>Photometer\<close>

record Photometer =
  lower_by_end :: MapT
  upper_by_end :: MapT

text \<open>\<open>Photometer() = default\<close>.\<close>

definition Photometer_new :: Photometer where
  "Photometer_new = \<lparr> lower_by_end = [], upper_by_end = [] \<rparr>"

text \<open>
  \<open>Photometer(const Photometer &current, double future)\<close>: each map is built from the
  range \<open>[upper_bound(future), cend())\<close> of the current one.
\<close>

definition as_of :: "Photometer \<Rightarrow> double \<Rightarrow> Photometer" where
  "as_of current future =
     \<lparr> lower_by_end = upper_bound (lower_by_end current) future,
       upper_by_end = upper_bound (upper_by_end current) future \<rparr>"

definition size_p :: "Photometer \<Rightarrow> nat" where
  "size_p p = length (lower_by_end p) + length (upper_by_end p)"

text \<open>
  \<open>erase_old\<close>: each map loses the range \<open>[cbegin(), upper_bound(now))\<close>, so what is
  left is the range from \<open>upper_bound(now)\<close> on.
\<close>

definition erase_old :: "Photometer \<Rightarrow> double \<Rightarrow> Photometer" where
  "erase_old p now =
     p\<lparr> lower_by_end := upper_bound (lower_by_end p) now,
        upper_by_end := upper_bound (upper_by_end p) now \<rparr>"

text \<open>
  The \<open>std::find_if\<close> of \<open>consume\<close>: the first entry of the target that is a superset
  of the sample, \<open>None\<close> for \<open>target.cend()\<close>.
\<close>

fun find_superset :: "MapT \<Rightarrow> Sample \<Rightarrow> (double \<times> Sample) option" where
  "find_superset [] sample = None"
| "find_superset (other # m) sample =
     (if is_superset_of (snd other) sample then Some other else find_superset m sample)"

definition consume :: "Photometer \<Rightarrow> Sample \<Rightarrow> Photometer" where
  "consume p sample =
     (let p1 = (if clear_m sample
                then p\<lparr> lower_by_end := [], upper_by_end := [] \<rparr>
                else erase_old p (start_m sample))
      in if sign_m sample
         then (if find_superset (upper_by_end p1) sample = None
               then p1\<lparr> upper_by_end := emplace (upper_by_end p1) (end_m sample) sample \<rparr>
               else p1)
         else (if find_superset (lower_by_end p1) sample = None
               then p1\<lparr> lower_by_end := emplace (lower_by_end p1) (end_m sample) sample \<rparr>
               else p1))"

text \<open>The inner loops of \<open>lower\<close> and \<open>upper\<close>: \<open>keep\<close> is false at the first override.\<close>

fun keep_lower :: "MapT \<Rightarrow> Sample \<Rightarrow> bool" where
  "keep_lower [] l = True"
| "keep_lower (kvu # m) l = (if overrides (snd kvu) l then False else keep_lower m l)"

fun keep_upper :: "MapT \<Rightarrow> Sample \<Rightarrow> bool" where
  "keep_upper [] u = True"
| "keep_upper (kvl # m) u = (if overrides (snd kvl) u then False else keep_upper m u)"

text \<open>The outer loops, with \<open>effective_lower\<close> and \<open>effective_upper\<close> as accumulators.\<close>

fun lower_loop :: "MapT \<Rightarrow> MapT \<Rightarrow> Sample \<Rightarrow> Sample" where
  "lower_loop [] ups effective_lower = effective_lower"
| "lower_loop (kvl # m) ups effective_lower =
     lower_loop m ups
       (if keep_lower ups (snd kvl) then resolve_lower effective_lower (snd kvl)
        else effective_lower)"

fun upper_loop :: "MapT \<Rightarrow> MapT \<Rightarrow> Sample \<Rightarrow> Sample" where
  "upper_loop [] lws effective_upper = effective_upper"
| "upper_loop (kvu # m) lws effective_upper =
     upper_loop m lws
       (if keep_upper lws (snd kvu) then resolve_upper effective_upper (snd kvu)
        else effective_upper)"

definition lower :: "Photometer \<Rightarrow> double" where
  "lower p = value_m (lower_loop (lower_by_end p) (upper_by_end p) universal_lower)"

definition upper :: "Photometer \<Rightarrow> double" where
  "upper p = value_m (upper_loop (upper_by_end p) (lower_by_end p) universal_upper)"

text \<open>\<open>estimate()\<close> and \<open>estimate(double now)\<close>.\<close>

definition estimate :: "Photometer \<Rightarrow> double" where
  "estimate p = 0.5 * (lower p + upper p)"

definition estimate_at :: "Photometer \<Rightarrow> double \<Rightarrow> double" where
  "estimate_at p now = estimate (as_of p now)"

definition consume_all :: "Photometer \<Rightarrow> Sample list \<Rightarrow> Photometer" where
  "consume_all p samples = foldl consume p samples"

subsection \<open>The codec\<close>

text \<open>
  \<open>Sample::from_raw\<close> copies the two bytes over the bit-field struct. The layout is
  the one \<open>test_serialise\<close> asserts (fields packed from the least significant bit
  of the little-endian 16-bit word): confidence in bits 0-1, clear in bit 2, value
  in bits 3-10, sign in bit 11, horizon in bits 12-15.
\<close>

definition RawSample_of_bytes :: "8 word \<Rightarrow> 8 word \<Rightarrow> RawSample" where
  "RawSample_of_bytes b0 b1 =
     (let w = (ucast b0 OR push_bit 8 (ucast b1) :: 16 word)
      in \<lparr> confidence = ucast w,
           clear = ucast (drop_bit 2 w),
           value_raw = ucast (drop_bit 3 w),
           sign = ucast (drop_bit 11 w),
           horizon = ucast (drop_bit 12 w) \<rparr>)"

definition from_raw :: "double \<Rightarrow> 8 word \<Rightarrow> 8 word \<Rightarrow> Sample" where
  "from_raw now b0 b1 = Sample_of_raw now (RawSample_of_bytes b0 b1)"

text \<open>\<open>consume(double now, const uint8_t (&data)[2])\<close>.\<close>

definition consume_raw :: "Photometer \<Rightarrow> double \<Rightarrow> 8 word \<Rightarrow> 8 word \<Rightarrow> Photometer" where
  "consume_raw p now b0 b1 = consume p (from_raw now b0 b1)"

text \<open>
  The conversions of \<open>Sample::raw\<close>. A conversion from \<open>double\<close> to an integer type
  drops the fraction (towards zero) and is undefined when the result does not fit
  the type; \<open>std::round\<close> rounds halves away from zero; \<open>std::log\<close> has a finite
  result only on a positive argument, where it is the library's \<open>log_d\<close>. \<open>None\<close>
  is the outcome wherever C++ defines none.
\<close>

definition trunc_to_int :: "double \<Rightarrow> int" where
  "trunc_to_int x = (if 0 \<le> x then \<lfloor>x\<rfloor> else \<lceil>x\<rceil>)"

definition to_int16 :: "double \<Rightarrow> 16 word option" where
  "to_int16 x =
     (let i = trunc_to_int x
      in if - 32768 \<le> i \<and> i \<le> 32767 then Some (word_of_int i) else None)"

definition to_uint16 :: "double \<Rightarrow> 16 word option" where
  "to_uint16 x =
     (let i = trunc_to_int x
      in if 0 \<le> i \<and> i \<le> 65535 then Some (word_of_int i) else None)"

definition std_round :: "double \<Rightarrow> double" where
  "std_round x = real_of_int (if 0 \<le> x then \<lfloor>x + 1 / 2\<rfloor> else \<lceil>x - 1 / 2\<rceil>)"

definition std_log :: "(double \<Rightarrow> double) \<Rightarrow> double \<Rightarrow> double option" where
  "std_log log_d x = (if 0 < x then Some (log_d x) else None)"

text \<open>
  The two computed fields of \<open>Sample::raw\<close>:
  \<open>static_cast<int16_t>((value_ - 50e3)/390)\<close> and
  \<open>static_cast<uint16_t>(std::round(std::log((end_ - start_)/0.0165)/std::log(2.)))\<close>.
  An infinite difference or quotient, and a division by a zero \<open>std::log(2.)\<close>,
  end in the conversion of an infinity or of NaN, which is undefined.
\<close>

definition raw_value :: "Sample \<Rightarrow> 16 word option" where
  "raw_value s = to_int16 (div_d (sub_d (value_m s) 50000) 390)"

definition raw_horizon :: "(double \<Rightarrow> double) \<Rightarrow> Sample \<Rightarrow> 16 word option" where
  "raw_horizon log_d s =
     (let d = sub_d (end_m s) (start_m s)
      in if \<not> finite_d d then None
         else let x = div_d d (fl 0.0165)
              in if \<not> finite_d x then None
                 else case std_log log_d x of
                        None \<Rightarrow> None
                      | Some l \<Rightarrow>
                          (let l2 = log_d 2
                           in if l2 = 0 then None
                              else to_uint16 (std_round (div_d l l2))))"

text \<open>
  \<open>Sample::raw\<close>. The \<open>int16_t\<close> and \<open>uint16_t\<close> results are stored into bit-fields
  of 8 and 4 bits, which keeps their low bits.
\<close>

definition raw :: "(double \<Rightarrow> double) \<Rightarrow> Sample \<Rightarrow> RawSample option" where
  "raw log_d s =
     (case raw_value s of
        None \<Rightarrow> None
      | Some v \<Rightarrow>
          (case raw_horizon log_d s of
             None \<Rightarrow> None
           | Some h \<Rightarrow>
               Some \<lparr> confidence = ucast (confidence_m s),
                      clear = of_bool (clear_m s),
                      value_raw = ucast v,
                      sign = of_bool (sign_m s),
                      horizon = ucast h \<rparr>))"

text \<open>
  What the theorems about \<open>raw\<close> ask of the library's \<open>std::log\<close>: on the
  arguments from 1/2 to \<open>2^16\<close> its result is within \<open>2^(-40)\<close> of the natural
  logarithm.
\<close>

definition log_accurate :: "(double \<Rightarrow> double) \<Rightarrow> bool" where
  "log_accurate log_d =
     (\<forall>x. 1 / 2 \<le> x \<and> x \<le> 2 ^ 16 \<longrightarrow> \<bar>log_d x - ln x\<bar> \<le> 1 / 2 ^ 40)"

subsection \<open>Samples of the repository's tests\<close>

text \<open>
  \<open>Sample(start, end, sign, value, clear, confidence)\<close>, and the samples the tests
  of reference.cpp build with it, under the tests' names.
\<close>

definition Sample_of ::
  "double \<Rightarrow> double \<Rightarrow> bool \<Rightarrow> double \<Rightarrow> bool \<Rightarrow> 8 word \<Rightarrow> Sample" where
  "Sample_of start end' sign' value' clear' confidence' =
     \<lparr> start_m = start, end_m = end', sign_m = sign', value_m = value',
       clear_m = clear', confidence_m = confidence' \<rparr>"

text \<open>\<open>test_override_confidence\<close>: \<open>samp0\<close>, \<open>samp1\<close>.\<close>

definition oc_samp0 :: Sample where
  "oc_samp0 = Sample_of 1.0 2.0 False 40000 False 0"

definition oc_samp1 :: Sample where
  "oc_samp1 = Sample_of 1.0 1.5 True 20000 False 1"

text \<open>\<open>test_simple_lower\<close>: \<open>samp0\<close> to \<open>samp3\<close>.\<close>

definition sl_samp0 :: Sample where
  "sl_samp0 = Sample_of 1.1 1.5 False 65000 False 0"

definition sl_samp1 :: Sample where
  "sl_samp1 = Sample_of 1.2 1.8 False 70000 False 0"

definition sl_samp2 :: Sample where
  "sl_samp2 = Sample_of 2.2 2.5 False 50000 False 0"

definition sl_samp3 :: Sample where
  "sl_samp3 = Sample_of 2.3 2.5 False 60000 True 0"

text \<open>\<open>test_superset\<close>: \<open>sampl\<close>, \<open>samp0\<close>, \<open>samp1\<close>.\<close>

definition ss_sampl :: Sample where
  "ss_sampl = Sample_of 1.1 1.5 False 0 False 0"

definition ss_samp0 :: Sample where
  "ss_samp0 = Sample_of 1.1 1.5 True 40000 False 0"

definition ss_samp1 :: Sample where
  "ss_samp1 = Sample_of 1.2 1.4 True 45000 False 0"

text \<open>
  Two samples that contradict each other with the same confidence and the same
  start (\<open>test_override_time\<close> with the second start moved onto the first).
\<close>

definition tie_lower :: Sample where
  "tie_lower = Sample_of 1.0 2.0 False 60000 False 2"

definition tie_upper :: Sample where
  "tie_upper = Sample_of 1.0 2.0 True 30000 False 2"

text \<open>
  A sample that starts at the instant the first sample of \<open>test_simple_lower\<close>
  ends.
\<close>

definition bd_samp :: Sample where
  "bd_samp = Sample_of 1.5 2.0 True 30000 False 0"

subsection \<open>Invariants of the stored maps\<close>

text \<open>
  What the multimap and \<open>consume\<close> maintain: the keys ascend and each key is the
  end of its sample; and no entry is a superset of an entry that follows it.
\<close>

definition keyed_by_end :: "MapT \<Rightarrow> bool" where
  "keyed_by_end m = (sorted (map fst m) \<and> list_all (\<lambda>kv. fst kv = end_m (snd kv)) m)"

abbreviation not_superset :: "double \<times> Sample \<Rightarrow> double \<times> Sample \<Rightarrow> bool" where
  "not_superset o' e \<equiv> \<not> is_superset_of (snd o') (snd e)"

definition engine_inv :: "Photometer \<Rightarrow> bool" where
  "engine_inv p =
     (keyed_by_end (lower_by_end p) \<and> keyed_by_end (upper_by_end p) \<and>
      sorted_wrt not_superset (lower_by_end p) \<and> sorted_wrt not_superset (upper_by_end p))"

definition directed :: "Photometer \<Rightarrow> bool" where
  "directed p =
     (list_all (\<lambda>kv. \<not> sign_m (snd kv)) (lower_by_end p) \<and>
      list_all (\<lambda>kv. sign_m (snd kv)) (upper_by_end p))"

subsection \<open>The order in which entries were stored\<close>

text \<open>
  The program keeps no record of the order in which it stored its entries. To
  speak about that order, \<open>consume_hist\<close> runs \<open>consume\<close> and keeps, beside the
  engine, the list of the stored entries of both collections, oldest first: the
  list loses the entries that \<open>consume\<close> removes (all of them when the sample
  clears, those with \<open>end \<le> start\<close> of the sample otherwise), and the sample is
  appended when \<open>consume\<close> stores it. The engine beside the list is \<open>consume\<close>'s
  own result.
\<close>

definition consume_hist :: "Photometer \<times> MapT \<Rightarrow> Sample \<Rightarrow> Photometer \<times> MapT" where
  "consume_hist ph sample =
     (let p = fst ph;
          kept = (if clear_m sample then []
                  else filter (\<lambda>kv. start_m sample < fst kv) (snd ph));
          p1 = (if clear_m sample
                then p\<lparr> lower_by_end := [], upper_by_end := [] \<rparr>
                else erase_old p (start_m sample));
          target = (if sign_m sample then upper_by_end p1 else lower_by_end p1)
      in (consume p sample,
          if find_superset target sample = None then kept @ [(end_m sample, sample)]
          else kept))"

definition consume_hist_all :: "Sample list \<Rightarrow> Photometer \<times> MapT" where
  "consume_hist_all samples = foldl consume_hist (Photometer_new, []) samples"

definition hist_inv :: "Photometer \<times> MapT \<Rightarrow> bool" where
  "hist_inv ph =
     (engine_inv (fst ph) \<and> directed (fst ph) \<and>
      mset (snd ph) = mset (lower_by_end (fst ph)) + mset (upper_by_end (fst ph)) \<and>
      sorted_wrt not_superset (snd ph))"

section \<open>Properties\<close>

lemmas sample_defs = Sample_of_def conflicts_def is_superset_of_def overrides_def
  resolve_lower_def resolve_upper_def universal_lower_def universal_upper_def universal_def

lemmas engine_defs = estimate_at_def estimate_def lower_def upper_def as_of_def consume_def
  erase_old_def Photometer_new_def size_p_def consume_all_def Let_def


subsection \<open>The override scenario\<close>

text \<open>
  Claim C1. A fresh engine consumes the lower bound 40000 (start 1.0, end 2.0,
  confidence 0) and then the upper bound 20000 (start 1.0, end 1.5, confidence 1).
  At 1.2 the upper bound overrides the lower one, so the lower bound is the
  universal 0 and the estimate is \<open>0.5*(0 + 20000) = 10000\<close>. At 1.7 the upper
  entry has expired, so the bounds are 40000 and the universal 100000 and the
  estimate is 70000.
\<close>

theorem override_confidence_scenario:
  "estimate_at (consume (consume Photometer_new oc_samp0) oc_samp1) 1.2 = 10000 \<and>
   lower (as_of (consume (consume Photometer_new oc_samp0) oc_samp1) 1.2) = 0 \<and>
   upper (as_of (consume (consume Photometer_new oc_samp0) oc_samp1) 1.2) = 20000 \<and>
   estimate_at (consume (consume Photometer_new oc_samp0) oc_samp1) 1.7 = 70000 \<and>
   lower (as_of (consume (consume Photometer_new oc_samp0) oc_samp1) 1.7) = 40000 \<and>
   upper (as_of (consume (consume Photometer_new oc_samp0) oc_samp1) 1.7) = 100000"
  by (simp add: engine_defs sample_defs oc_samp0_def oc_samp1_def)

subsection \<open>Conflicts and overrides\<close>

text \<open>
  Claim C2. \<open>overrides a b\<close> holds exactly when \<open>a\<close> and \<open>b\<close> have opposite
  directions, the value of the lower-direction one is strictly greater than the
  value of the upper-direction one, and \<open>a\<close> has the greater confidence, or the
  same confidence and the earlier start.
\<close>

theorem overrides_iff:
  "overrides a b \<longleftrightarrow>
     (sign_m a \<noteq> sign_m b \<and>
      (if sign_m a then value_m b > value_m a else value_m a > value_m b) \<and>
      (confidence_m a > confidence_m b \<or>
       (confidence_m a = confidence_m b \<and> start_m a < start_m b)))"
  by (auto simp: overrides_def conflicts_def)

subsection \<open>Insertion\<close>

lemma find_superset_None_iff:
  "find_superset m s = None \<longleftrightarrow> (\<forall>kv \<in> set m. \<not> is_superset_of (snd kv) s)"
  by (induction m) auto

text \<open>
  Claim C5. The sample \<open>e\<close> does not clear. If, after the pruning of \<open>consume\<close>,
  the collection of \<open>e\<close>'s direction holds an entry that ends no earlier than \<open>e\<close>
  and is at least as tight (a lower bound not below \<open>e\<close>'s, or an upper bound not
  above it), then \<open>consume\<close> leaves exactly the pruned state: \<open>e\<close> is not stored and
  the size is that of the pruned state.
\<close>

theorem superset_discards:
  assumes "\<not> clear_m e"
    and "kv \<in> set (if sign_m e then upper_by_end (erase_old p (start_m e))
                    else lower_by_end (erase_old p (start_m e)))"
    and "end_m (snd kv) \<ge> end_m e"
    and "(sign_m (snd kv) \<and> sign_m e \<and> value_m (snd kv) \<le> value_m e) \<or>
         (\<not> sign_m (snd kv) \<and> \<not> sign_m e \<and> value_m (snd kv) \<ge> value_m e)"
  shows "consume p e = erase_old p (start_m e) \<and>
         size_p (consume p e) = size_p (erase_old p (start_m e))"
proof -
  have sup: "is_superset_of (snd kv) e"
    using assms(3,4) by (simp add: is_superset_of_def)
  show ?thesis
  proof (cases "sign_m e")
    case True
    with assms(2) sup have "find_superset (upper_by_end (erase_old p (start_m e))) e \<noteq> None"
      by (auto simp: find_superset_None_iff)
    with True assms(1) show ?thesis by (auto simp: consume_def Let_def)
  next
    case False
    with assms(2) sup have "find_superset (lower_by_end (erase_old p (start_m e))) e \<noteq> None"
      by (auto simp: find_superset_None_iff)
    with False assms(1) show ?thesis by (auto simp: consume_def Let_def)
  qed
qed

text \<open>
  The third sample of \<open>test_superset\<close>: the upper bound 40000 that ends at 1.5 is
  stored, and the upper bound 45000 that ends at 1.4 is discarded.
\<close>

theorem superset_discards_witness:
  "\<not> clear_m ss_samp1 \<and>
   (1.5, ss_samp0) \<in> set (upper_by_end
      (erase_old (consume (consume Photometer_new ss_sampl) ss_samp0) (start_m ss_samp1))) \<and>
   end_m ss_samp0 \<ge> end_m ss_samp1 \<and>
   sign_m ss_samp0 \<and> sign_m ss_samp1 \<and> value_m ss_samp0 \<le> value_m ss_samp1 \<and>
   consume (consume (consume Photometer_new ss_sampl) ss_samp0) ss_samp1 =
     \<lparr> lower_by_end = [(1.5, ss_sampl)], upper_by_end = [(1.5, ss_samp0)] \<rparr> \<and>
   size_p (consume (consume (consume Photometer_new ss_sampl) ss_samp0) ss_samp1) = 2"
  using superset_discards [of ss_samp1 "(1.5, ss_samp0)"
      "consume (consume Photometer_new ss_sampl) ss_samp0"]
  by (simp add: engine_defs sample_defs ss_sampl_def ss_samp0_def ss_samp1_def)

subsection \<open>Clearing\<close>

text \<open>
  Claim C6, as the code has it. A sample that clears empties both collections
  and skips the pruning, and then goes through the scan and the insertion like
  any other sample: the scan finds nothing in the emptied target, so the sample
  is stored. Afterwards the collection of its direction holds exactly this
  sample and the other collection is empty.
\<close>

theorem clear_then_insert:
  "clear_m e \<Longrightarrow>
     consume p e =
       (if sign_m e then \<lparr> lower_by_end = [], upper_by_end = [(end_m e, e)] \<rparr>
        else \<lparr> lower_by_end = [(end_m e, e)], upper_by_end = [] \<rparr>)"
  by (simp add: consume_def Let_def)

text \<open>The clearing sample of \<open>test_simple_lower\<close>.\<close>

theorem clear_then_insert_witness:
  "clear_m sl_samp3 \<and>
   consume (consume Photometer_new sl_samp2) sl_samp3 =
     \<lparr> lower_by_end = [(2.5, sl_samp3)], upper_by_end = [] \<rparr>"
  using clear_then_insert [of sl_samp3 "consume Photometer_new sl_samp2"]
  by (simp add: sample_defs sl_samp3_def)

text \<open>
  The claim as the specification words it (nothing is inserted, both collections
  are empty afterwards) fails on that sample: the lower collection is not empty.
\<close>

theorem clear_leaves_empty_counterexample:
  "\<not> (lower_by_end (consume (consume Photometer_new sl_samp2) sl_samp3) = [] \<and>
      upper_by_end (consume (consume Photometer_new sl_samp2) sl_samp3) = [])"
  by (simp add: engine_defs sample_defs sl_samp2_def sl_samp3_def)

text \<open>
  Claim C7. After a sample that does not clear and then a sample that clears,
  the engine holds one entry, the clearing sample itself, whatever it held
  before.
\<close>

theorem clear_scenario:
  "\<not> clear_m a \<Longrightarrow> clear_m c \<Longrightarrow>
     size_p (consume (consume p a) c) = 1 \<and>
     lower_by_end (consume (consume p a) c) @ upper_by_end (consume (consume p a) c)
       = [(end_m c, c)]"
  by (simp add: consume_def size_p_def Let_def)

theorem clear_scenario_witness:
  "\<not> clear_m sl_samp2 \<and> clear_m sl_samp3 \<and>
   size_p (consume (consume Photometer_new sl_samp2) sl_samp3) = 1 \<and>
   lower_by_end (consume (consume Photometer_new sl_samp2) sl_samp3) @
     upper_by_end (consume (consume Photometer_new sl_samp2) sl_samp3) = [(2.5, sl_samp3)]"
  using clear_scenario [of sl_samp2 sl_samp3 Photometer_new]
  by (simp add: sample_defs sl_samp2_def sl_samp3_def)

subsection \<open>The maps stay keyed by end, with no superset ahead\<close>

lemma upper_bound_filter:
  "sorted (map fst m) \<Longrightarrow> upper_bound m k = filter (\<lambda>kv. k < fst kv) m"
proof (induction m)
  case Nil
  then show ?case by simp
next
  case (Cons kv m)
  show ?case
  proof (cases "k < fst kv")
    case True
    with Cons.prems have "\<forall>x \<in> set m. k < fst x" by auto
    then have "filter (\<lambda>kv. k < fst kv) m = m" by simp
    with True show ?thesis by simp
  next
    case False
    with Cons show ?thesis by simp
  qed
qed

lemma set_emplace: "set (emplace m k v) = insert (k, v) (set m)"
  by (induction m) auto

lemma sorted_emplace: "sorted (map fst m) \<Longrightarrow> sorted (map fst (emplace m k v))"
  by (induction m) (auto simp: set_emplace)

lemma keyed_upper_bound: "keyed_by_end m \<Longrightarrow> keyed_by_end (upper_bound m k)"
  by (simp add: keyed_by_end_def upper_bound_filter sorted_filter list_all_iff)

lemma keyed_emplace: "keyed_by_end m \<Longrightarrow> keyed_by_end (emplace m (end_m s) s)"
  by (simp add: keyed_by_end_def sorted_emplace list_all_iff set_emplace)

lemma keyed_upper_bound_end:
  assumes "keyed_by_end m"
  shows "upper_bound m k = filter (\<lambda>kv. k < end_m (snd kv)) m"
proof -
  have "filter (\<lambda>kv. k < fst kv) m = filter (\<lambda>kv. k < end_m (snd kv)) m"
    using assms by (intro filter_cong) (auto simp: keyed_by_end_def list_all_iff)
  with assms show ?thesis by (simp add: keyed_by_end_def upper_bound_filter)
qed

lemma sorted_wrt_upper_bound: "sorted_wrt R m \<Longrightarrow> sorted_wrt R (upper_bound m k)"
  by (induction m) auto

lemma sorted_wrt_emplace:
  assumes "sorted_wrt not_superset m" and "keyed_by_end m"
    and "\<forall>kv \<in> set m. \<not> is_superset_of (snd kv) s"
  shows "sorted_wrt not_superset (emplace m (end_m s) s)"
  using assms
proof (induction m)
  case Nil
  then show ?case by simp
next
  case (Cons kv m)
  show ?case
  proof (cases "end_m s < fst kv")
    case True
    with Cons.prems(2) have "\<forall>x \<in> set (kv # m). end_m s < end_m (snd x)"
      by (fastforce simp: keyed_by_end_def list_all_iff)
    then have "\<forall>x \<in> set (kv # m). \<not> is_superset_of s (snd x)"
      by (auto simp: is_superset_of_def)
    with True Cons.prems(1) show ?thesis by simp
  next
    case False
    from Cons.prems have "sorted_wrt not_superset (emplace m (end_m s) s)"
      by (intro Cons.IH) (auto simp: keyed_by_end_def)
    with False Cons.prems(1,3) show ?thesis by (auto simp: set_emplace)
  qed
qed

lemma engine_inv_new: "engine_inv Photometer_new"
  by (simp add: engine_inv_def Photometer_new_def keyed_by_end_def)

lemma engine_inv_erase_old: "engine_inv p \<Longrightarrow> engine_inv (erase_old p now)"
  by (simp add: engine_inv_def erase_old_def keyed_upper_bound sorted_wrt_upper_bound)

lemma engine_inv_cleared: "engine_inv (p\<lparr> lower_by_end := [], upper_by_end := [] \<rparr>)"
  by (simp add: engine_inv_def keyed_by_end_def)

lemma engine_inv_insert:
  assumes "engine_inv p"
  shows "engine_inv (if sign_m s
         then (if find_superset (upper_by_end p) s = None
               then p\<lparr> upper_by_end := emplace (upper_by_end p) (end_m s) s \<rparr> else p)
         else (if find_superset (lower_by_end p) s = None
               then p\<lparr> lower_by_end := emplace (lower_by_end p) (end_m s) s \<rparr> else p))"
  using assms
  by (auto simp: engine_inv_def keyed_emplace find_superset_None_iff intro!: sorted_wrt_emplace)

lemma engine_inv_consume: "engine_inv p \<Longrightarrow> engine_inv (consume p s)"
  unfolding consume_def Let_def
  by (cases "clear_m s") (simp_all add: engine_inv_insert engine_inv_cleared engine_inv_erase_old)

lemma engine_inv_consume_all: "engine_inv p \<Longrightarrow> engine_inv (consume_all p samples)"
  unfolding consume_all_def
  by (induction samples arbitrary: p) (simp_all add: engine_inv_consume)

subsection \<open>No entry is a superset of an entry stored after it\<close>

lemma mset_emplace: "mset (emplace m k v) = add_mset (k, v) (mset m)"
  by (induction m) auto

lemma list_all_upper_bound: "list_all P m \<Longrightarrow> list_all P (upper_bound m k)"
  by (induction m) auto

lemma directed_erase_old: "directed p \<Longrightarrow> directed (erase_old p now)"
  by (simp add: directed_def erase_old_def list_all_upper_bound)

lemma directed_cleared: "directed (p\<lparr> lower_by_end := [], upper_by_end := [] \<rparr>)"
  by (simp add: directed_def)

lemma directed_insert:
  assumes "directed p"
  shows "directed (if sign_m s
         then (if find_superset (upper_by_end p) s = None
               then p\<lparr> upper_by_end := emplace (upper_by_end p) (end_m s) s \<rparr> else p)
         else (if find_superset (lower_by_end p) s = None
               then p\<lparr> lower_by_end := emplace (lower_by_end p) (end_m s) s \<rparr> else p))"
  using assms by (auto simp: directed_def list_all_iff set_emplace)

lemma directed_consume: "directed p \<Longrightarrow> directed (consume p s)"
  unfolding consume_def Let_def
  by (cases "clear_m s") (simp_all add: directed_insert directed_cleared directed_erase_old)

lemma fst_consume_hist: "fst (consume_hist ph s) = consume (fst ph) s"
  by (simp add: consume_hist_def Let_def)

lemma hist_inv_step:
  assumes "hist_inv ph"
  shows "hist_inv (consume_hist ph s)"
proof -
  obtain p h where ph: "ph = (p, h)" by (cases ph)
  from assms have inv: "engine_inv p" and dir: "directed p"
    and ms: "mset h = mset (lower_by_end p) + mset (upper_by_end p)"
    and sw: "sorted_wrt not_superset h"
    by (simp_all add: hist_inv_def ph)
  define kept where "kept = (if clear_m s then [] else filter (\<lambda>kv. start_m s < fst kv) h)"
  define p1 where "p1 = (if clear_m s then p\<lparr> lower_by_end := [], upper_by_end := [] \<rparr>
      else erase_old p (start_m s))"
  have srt: "sorted (map fst (lower_by_end p))" "sorted (map fst (upper_by_end p))"
    using inv by (simp_all add: engine_inv_def keyed_by_end_def)
  have ms1: "mset kept = mset (lower_by_end p1) + mset (upper_by_end p1)"
    using ms by (simp add: kept_def p1_def erase_old_def upper_bound_filter srt)
  have sw1: "sorted_wrt not_superset kept"
    using sw by (simp add: kept_def sorted_wrt_filter)
  have dir1: "directed p1"
    using dir by (simp add: p1_def directed_cleared directed_erase_old)
  have set1: "set kept = set (lower_by_end p1) \<union> set (upper_by_end p1)"
    using ms1 by (metis set_mset_mset set_mset_union)
  have e1: "engine_inv (consume p s)" using inv by (rule engine_inv_consume)
  have d1: "directed (consume p s)" using dir by (rule directed_consume)
  define target where "target = (if sign_m s then upper_by_end p1 else lower_by_end p1)"
  have ch: "consume_hist ph s =
      (consume p s, if find_superset target s = None then kept @ [(end_m s, s)] else kept)"
    by (simp add: consume_hist_def ph kept_def p1_def target_def Let_def)
  show ?thesis
  proof (cases "find_superset target s = None")
    case True
    have "\<forall>kv \<in> set kept. \<not> is_superset_of (snd kv) s"
      using True dir1
      by (auto simp: target_def set1 find_superset_None_iff directed_def list_all_iff
          is_superset_of_def split: if_splits)
    then have sw2: "sorted_wrt not_superset (kept @ [(end_m s, s)])"
      using sw1 by (simp add: sorted_wrt_append)
    have "mset (lower_by_end (consume p s)) + mset (upper_by_end (consume p s)) =
        add_mset (end_m s, s) (mset (lower_by_end p1) + mset (upper_by_end p1))"
      using True
      by (cases "sign_m s")
        (simp_all add: consume_def p1_def [symmetric] target_def Let_def mset_emplace)
    then have "mset (kept @ [(end_m s, s)]) =
        mset (lower_by_end (consume p s)) + mset (upper_by_end (consume p s))"
      using ms1 by simp
    with True sw2 e1 d1 show ?thesis
      by (simp add: hist_inv_def ch)
  next
    case False
    then have "consume p s = p1"
      by (cases "sign_m s") (auto simp: consume_def p1_def [symmetric] target_def Let_def)
    with False sw1 ms1 e1 d1 show ?thesis
      by (simp add: hist_inv_def ch)
  qed
qed

lemma hist_inv_foldl: "hist_inv ph \<Longrightarrow> hist_inv (foldl consume_hist ph samples)"
  by (induction samples arbitrary: ph) (simp_all add: hist_inv_step)

lemma fst_foldl_consume_hist:
  "fst (foldl consume_hist ph samples) = consume_all (fst ph) samples"
  unfolding consume_all_def
  by (induction samples arbitrary: ph) (simp_all add: fst_consume_hist)

lemma hist_inv_new: "hist_inv (Photometer_new, [])"
  using engine_inv_new by (simp add: hist_inv_def directed_def Photometer_new_def)

text \<open>
  Claim C4, as the code has it. \<open>consume\<close> rejects a sample only when an entry
  already stored is a superset of it; it never asks whether the sample is a
  superset of a stored entry. So after every sequence of \<open>consume\<close> calls on a
  fresh engine, no stored entry is a superset of a stored entry that was stored
  after it: of two stored entries, a superset is always the one stored later.
  In the statement the list beside the engine holds exactly the entries of the
  two collections, in the order in which they were stored, and no entry of it is
  a superset of a later one (a superset has the direction of its subset, so
  entries of different collections are never in that relation).
\<close>

theorem no_superset_of_later:
  "fst (consume_hist_all samples) = consume_all Photometer_new samples \<and>
   mset (snd (consume_hist_all samples)) =
     mset (lower_by_end (consume_all Photometer_new samples)) +
     mset (upper_by_end (consume_all Photometer_new samples)) \<and>
   sorted_wrt (\<lambda>o' e. \<not> is_superset_of (snd o') (snd e)) (snd (consume_hist_all samples))"
  using hist_inv_foldl [OF hist_inv_new, of samples]
    fst_foldl_consume_hist [of "(Photometer_new, [])" samples]
  by (simp add: hist_inv_def consume_hist_all_def)

text \<open>
  The three samples of \<open>test_superset\<close>: the upper bound 45000 that ends at 1.4
  comes after the upper bound 40000 that ends at 1.5 and is not stored.
\<close>

theorem no_superset_of_later_witness:
  "consume_hist_all [ss_sampl, ss_samp0, ss_samp1] =
     (\<lparr> lower_by_end = [(1.5, ss_sampl)], upper_by_end = [(1.5, ss_samp0)] \<rparr>,
      [(1.5, ss_sampl), (1.5, ss_samp0)]) \<and>
   is_superset_of ss_samp0 ss_samp1 \<and>
   \<not> is_superset_of ss_sampl ss_samp0"
  using no_superset_of_later [of "[ss_sampl, ss_samp0, ss_samp1]"]
  by (simp add: consume_hist_all_def consume_hist_def engine_defs sample_defs
      ss_sampl_def ss_samp0_def ss_samp1_def)

text \<open>
  The claim as the specification words it (no stored entry is a superset of
  another one of its collection) fails on the first two samples of
  \<open>test_simple_lower\<close>, which asserts that both are stored: the second lower bound
  ends later and is tighter than the first, and it was stored after the first.
\<close>

theorem superset_stored_counterexample:
  "lower_by_end (consume_all Photometer_new [sl_samp0, sl_samp1]) =
     [(1.5, sl_samp0), (1.8, sl_samp1)] \<and>
   snd (consume_hist_all [sl_samp0, sl_samp1]) = [(1.5, sl_samp0), (1.8, sl_samp1)] \<and>
   sl_samp1 \<noteq> sl_samp0 \<and>
   end_m sl_samp1 \<ge> end_m sl_samp0 \<and> \<not> sign_m sl_samp1 \<and> \<not> sign_m sl_samp0 \<and>
   value_m sl_samp1 \<ge> value_m sl_samp0 \<and>
   is_superset_of sl_samp1 sl_samp0"
  by (simp add: consume_hist_all_def consume_hist_def engine_defs sample_defs
      sl_samp0_def sl_samp1_def)

subsection \<open>Expiry\<close>

text \<open>
  Claim C3. Validity is half-open. In an engine built by \<open>consume\<close> calls, the
  pruning of a sample \<open>e\<close> that does not clear keeps, in both collections, exactly
  the entries whose end is greater than \<open>e\<close>'s start, that is, it removes exactly
  those with \<open>end \<le> start e\<close>; \<open>consume\<close> then adds at most \<open>e\<close> itself to the
  collection of its direction. The snapshot that \<open>estimate(t)\<close> evaluates holds
  exactly the stored entries with \<open>t < end\<close>: an entry that ends at \<open>T\<close> is in it
  for every \<open>t < T\<close> and not in it for any \<open>t \<ge> T\<close>, \<open>t = T\<close> included.
\<close>

theorem expiry_half_open:
  assumes "p = consume_all Photometer_new samples"
  shows "(\<not> clear_m e \<longrightarrow>
            erase_old p (start_m e) =
              \<lparr> lower_by_end = filter (\<lambda>kv. start_m e < end_m (snd kv)) (lower_by_end p),
                upper_by_end = filter (\<lambda>kv. start_m e < end_m (snd kv)) (upper_by_end p) \<rparr> \<and>
            lower_by_end (consume p e) =
              (let m = filter (\<lambda>kv. start_m e < end_m (snd kv)) (lower_by_end p)
               in if \<not> sign_m e \<and> find_superset m e = None then emplace m (end_m e) e else m) \<and>
            upper_by_end (consume p e) =
              (let m = filter (\<lambda>kv. start_m e < end_m (snd kv)) (upper_by_end p)
               in if sign_m e \<and> find_superset m e = None then emplace m (end_m e) e else m)) \<and>
         as_of p t =
           \<lparr> lower_by_end = filter (\<lambda>kv. t < end_m (snd kv)) (lower_by_end p),
             upper_by_end = filter (\<lambda>kv. t < end_m (snd kv)) (upper_by_end p) \<rparr> \<and>
         estimate_at p t = estimate (as_of p t)"
proof -
  have "engine_inv p"
    unfolding assms by (rule engine_inv_consume_all [OF engine_inv_new])
  then have k: "keyed_by_end (lower_by_end p)" "keyed_by_end (upper_by_end p)"
    by (simp_all add: engine_inv_def)
  have ub: "upper_bound (lower_by_end p) x = filter (\<lambda>kv. x < end_m (snd kv)) (lower_by_end p)"
    "upper_bound (upper_by_end p) x = filter (\<lambda>kv. x < end_m (snd kv)) (upper_by_end p)" for x
    using k by (simp_all add: keyed_upper_bound_end)
  show ?thesis
    by (simp add: consume_def erase_old_def as_of_def estimate_at_def ub Let_def)
qed

text \<open>
  After the first two samples of \<open>test_simple_lower\<close> (ends 1.5 and 1.8): a sample
  that starts at 1.5 prunes the first entry, and the snapshot at 1.5 does not
  hold it, while the snapshot at 1.4 does.
\<close>

theorem expiry_half_open_witness:
  "\<not> clear_m bd_samp \<and>
   lower_by_end (consume_all Photometer_new [sl_samp0, sl_samp1]) =
     [(1.5, sl_samp0), (1.8, sl_samp1)] \<and>
   erase_old (consume_all Photometer_new [sl_samp0, sl_samp1]) (start_m bd_samp) =
     \<lparr> lower_by_end = [(1.8, sl_samp1)], upper_by_end = [] \<rparr> \<and>
   consume (consume_all Photometer_new [sl_samp0, sl_samp1]) bd_samp =
     \<lparr> lower_by_end = [(1.8, sl_samp1)], upper_by_end = [(2.0, bd_samp)] \<rparr> \<and>
   as_of (consume_all Photometer_new [sl_samp0, sl_samp1]) 1.5 =
     \<lparr> lower_by_end = [(1.8, sl_samp1)], upper_by_end = [] \<rparr> \<and>
   as_of (consume_all Photometer_new [sl_samp0, sl_samp1]) 1.4 =
     \<lparr> lower_by_end = [(1.5, sl_samp0), (1.8, sl_samp1)], upper_by_end = [] \<rparr> \<and>
   estimate_at (consume_all Photometer_new [sl_samp0, sl_samp1]) 1.5 = 85000"
  using expiry_half_open [of "consume_all Photometer_new [sl_samp0, sl_samp1]"
      "[sl_samp0, sl_samp1]" bd_samp "1.5"]
  by (simp add: engine_defs sample_defs sl_samp0_def sl_samp1_def bd_samp_def)

subsection \<open>Contradictions of equal rank\<close>

text \<open>
  Claim C10. Two samples conflict, with the same confidence and the same start.
  Then neither overrides the other. When neither clears and the first is still
  valid at the start of the second, a fresh engine that consumes them stores
  both, both pass the override test of the \<open>lower\<close> and \<open>upper\<close> loops, and \<open>lower\<close>
  returns more than \<open>upper\<close>; \<open>estimate\<close> is the midpoint of the two.
\<close>

theorem equal_rank_conflict:
  assumes "conflicts a b" and "confidence_m a = confidence_m b" and "start_m a = start_m b"
  shows "\<not> overrides a b \<and> \<not> overrides b a \<and>
         (\<not> clear_m a \<and> \<not> clear_m b \<and> start_m b < end_m a \<longrightarrow>
            (let p = consume (consume Photometer_new a) b;
                 l = (if sign_m a then b else a);
                 u = (if sign_m a then a else b)
             in lower_by_end p = [(end_m l, l)] \<and> upper_by_end p = [(end_m u, u)] \<and>
                keep_lower (upper_by_end p) l \<and> keep_upper (lower_by_end p) u \<and>
                lower p = max 0 (value_m l) \<and> upper p = min 100000 (value_m u) \<and>
                upper p < lower p \<and>
                estimate p = (lower p + upper p) / 2))"
proof -
  have no: "\<not> overrides a b" "\<not> overrides b a"
    using assms by (simp_all add: overrides_def)
  show ?thesis
  proof (cases "sign_m a")
    case True
    with assms(1) have "\<not> sign_m b" "value_m a < value_m b"
      by (auto simp: conflicts_def)
    with True no assms(3) show ?thesis
      by (simp add: engine_defs sample_defs)
  next
    case False
    with assms(1) have "sign_m b" "value_m b < value_m a"
      by (auto simp: conflicts_def)
    with False no assms(3) show ?thesis
      by (simp add: engine_defs sample_defs)
  qed
qed

theorem equal_rank_conflict_witness:
  "conflicts tie_lower tie_upper \<and> confidence_m tie_lower = confidence_m tie_upper \<and>
   start_m tie_lower = start_m tie_upper \<and>
   \<not> overrides tie_lower tie_upper \<and> \<not> overrides tie_upper tie_lower \<and>
   \<not> clear_m tie_lower \<and> \<not> clear_m tie_upper \<and> start_m tie_upper < end_m tie_lower \<and>
   lower (consume (consume Photometer_new tie_lower) tie_upper) = 60000 \<and>
   upper (consume (consume Photometer_new tie_lower) tie_upper) = 30000 \<and>
   estimate (consume (consume Photometer_new tie_lower) tie_upper) = 45000"
  using equal_rank_conflict [of tie_lower tie_upper]
  by (simp add: engine_defs sample_defs tie_lower_def tie_upper_def)

subsection \<open>The codec: bit-fields\<close>

lemma one_bit_cases: "(c :: 1 word) = 0 \<or> c = 1"
proof -
  have "unat c < 2" using unsigned_less [of c, where 'a=nat] by simp
  then have "unat c = unat (0 :: 1 word) \<or> unat c = unat (1 :: 1 word)" by auto
  then show ?thesis by (simp only: word_unat_eq_iff)
qed

lemma of_bool_neq_0: "(of_bool ((c :: 1 word) \<noteq> 0) :: 1 word) = c"
  using one_bit_cases [of c] by auto

lemma ucast_confidence: "(ucast (ucast (c :: 2 word) :: 8 word) :: 2 word) = c"
  by (rule bit_word_eqI) (auto simp: bit_simps)

lemma ucast_value: "(ucast (word_of_int (sint (v :: 8 word)) :: 16 word) :: 8 word) = v"
  by (rule bit_word_eqI) (auto simp: bit_simps)

lemma ucast_horizon: "(ucast (word_of_int (int (unat (h :: 4 word))) :: 16 word) :: 4 word) = h"
  by (rule bit_word_eqI) (auto simp: bit_simps)



text \<open>The bytes and the fields of \<open>test_serialise\<close> and \<open>test_deserialise\<close>.\<close>

lemma test_deserialise_fields:
  "RawSample_of_bytes 0x82 0x57 =
     \<lparr> confidence = 2, clear = 0, value_raw = 0xF0, sign = 0, horizon = 5 \<rparr>"
  by (simp add: RawSample_of_bytes_def)

subsection \<open>The rounding of doubles\<close>

lemma round_even_error: "\<bar>real_of_int (round_even y) - y\<bar> \<le> 1 / 2"
  unfolding round_even_def Let_def by (auto; linarith)

lemma round_even_of_int: "round_even (real_of_int n) = n"
  by (simp add: round_even_def)

lemma fl_0: "fl 0 = 0"
  by (simp add: fl_def)

lemma fl_unit:
  assumes "x \<noteq> 0"
  defines "u \<equiv> 2 powr (real_of_int (max \<lfloor>log 2 \<bar>x\<bar>\<rfloor> (- 1022)) - 52)"
  shows "fl x = real_of_int (round_even (x / u)) * u" and "\<bar>fl x - x\<bar> \<le> u / 2"
proof -
  show eq: "fl x = real_of_int (round_even (x / u)) * u"
    using assms(1) by (simp add: fl_def u_def Let_def)
  have pos: "0 < u" by (simp add: u_def)
  have "fl x - x = (real_of_int (round_even (x / u)) - x / u) * u"
    using pos by (simp add: eq left_diff_distrib)
  then have "\<bar>fl x - x\<bar> = \<bar>real_of_int (round_even (x / u)) - x / u\<bar> * u"
    using pos by (simp add: abs_mult)
  also have "\<dots> \<le> (1 / 2) * u"
    using round_even_error [of "x / u"] pos by (intro mult_right_mono) simp_all
  finally show "\<bar>fl x - x\<bar> \<le> u / 2" by simp
qed

lemma fl_error: "\<bar>fl x - x\<bar> \<le> \<bar>x\<bar> / 2 ^ 53 + 1 / 2 ^ 100"
proof (cases "x = 0")
  case True
  then show ?thesis by (simp add: fl_0)
next
  case False
  define e where "e = \<lfloor>log 2 \<bar>x\<bar>\<rfloor>"
  define u where "u = 2 powr (real_of_int (max e (- 1022)) - 52)"
  have err: "\<bar>fl x - x\<bar> \<le> u / 2"
    using fl_unit(2) [OF False] by (simp add: u_def e_def)
  have ax: "0 < \<bar>x\<bar>" using False by simp
  have "real_of_int e \<le> log 2 \<bar>x\<bar>" by (simp add: e_def)
  then have pe: "2 powr real_of_int e \<le> \<bar>x\<bar>"
    using ax by (simp add: le_log_iff)
  have "u \<le> \<bar>x\<bar> / 2 ^ 52 + 1 / 2 ^ 99"
  proof (cases "- 1022 \<le> e")
    case True
    then have "u = 2 powr real_of_int e * 2 powr (- 52)"
      by (simp add: u_def max_def powr_add [symmetric])
    also have "\<dots> = 2 powr real_of_int e / 2 ^ 52"
      by (simp add: powr_neg_numeral)
    also have "\<dots> \<le> \<bar>x\<bar> / 2 ^ 52"
      using pe by (simp add: divide_right_mono)
    finally show ?thesis by (simp add: add_increasing2)
  next
    case False
    then have "u = 2 powr (- 1074)" by (simp add: u_def max_def)
    also have "\<dots> = 1 / 2 ^ 1074" by (simp add: powr_neg_numeral)
    also have "\<dots> \<le> 1 / (2::real) ^ 99"
      by (intro divide_left_mono power_increasing) simp_all
    finally show ?thesis using ax by (simp add: add_increasing)
  qed
  with err show ?thesis by simp
qed


lemma fl_of_int:
  assumes "\<bar>n\<bar> < 2 ^ 53"
  shows "fl (real_of_int n) = real_of_int n"
proof (cases "n = 0")
  case True
  then show ?thesis by (simp add: fl_0)
next
  case False
  define x where "x = real_of_int n"
  define e where "e = \<lfloor>log 2 \<bar>x\<bar>\<rfloor>"
  have x0: "x \<noteq> 0" using False by (simp add: x_def)
  have x1: "1 \<le> \<bar>x\<bar>" using False by (simp add: x_def flip: of_int_abs)
  have "\<bar>x\<bar> < 2 ^ 53" using assms by (simp add: x_def flip: of_int_abs)
  then have "log 2 \<bar>x\<bar> < log 2 (2 ^ 53)" using x1 by simp
  moreover have "log 2 ((2::real) ^ 53) = real 53" by (rule log_pow_cancel) simp_all
  ultimately have "log 2 \<bar>x\<bar> < 53" by (simp only: of_nat_numeral)
  then have e_hi: "e \<le> 52" by (simp add: e_def floor_le_iff)
  have "0 \<le> log 2 \<bar>x\<bar>" using x1 by simp
  then have e_lo: "0 \<le> e" by (simp add: e_def)
  define k where "k = nat (52 - e)"
  have "real_of_int (max e (- 1022)) - 52 = - real k"
    using e_lo e_hi by (simp add: k_def max_def)
  then have u: "2 powr (real_of_int (max e (- 1022)) - 52) = 1 / 2 ^ k"
    by (simp add: powr_minus powr_realpow inverse_eq_divide)
  have "x / (1 / 2 ^ k) = real_of_int (n * 2 ^ k)" by (simp add: x_def)
  then have "round_even (x / (1 / 2 ^ k)) = n * 2 ^ k"
    by (simp only: round_even_of_int)
  then have "fl x = real_of_int (n * 2 ^ k) * (1 / 2 ^ k)"
    using fl_unit(1) [OF x0] by (simp only: u e_def [symmetric])
  then show ?thesis by (simp add: x_def)
qed

lemma fl_near_power:
  assumes "0 \<le> h" and "h < 1 / 32"
  shows "fl (2 ^ 48 + h) = 2 ^ 48"
proof -
  define x :: real where "x = 2 ^ 48 + h"
  have x0: "x \<noteq> 0" and xp: "0 < x" using assms by (simp_all add: x_def)
  have "\<lfloor>log 2 x\<rfloor> = 48"
    using assms xp by (subst floor_log_eq_powr_iff) (simp_all add: x_def)
  then have u: "2 powr (real_of_int (max \<lfloor>log 2 \<bar>x\<bar>\<rfloor> (- 1022)) - 52) = 1 / 2 ^ 4"
    using xp by (simp add: powr_neg_numeral)
  have "x / (1 / 2 ^ 4) = real_of_int (2 ^ 52) + 16 * h" by (simp add: x_def)
  moreover have "round_even (real_of_int (2 ^ 52) + 16 * h) = 2 ^ 52"
  proof -
    have "\<lfloor>real_of_int (2 ^ 52) + 16 * h\<rfloor> = 2 ^ 52"
      using assms by (intro floor_unique) simp_all
    then show ?thesis using assms by (simp add: round_even_def Let_def)
  qed
  ultimately have "round_even (x / (1 / 2 ^ 4)) = 2 ^ 52" by simp
  then have "fl x = real_of_int (2 ^ 52) * (1 / 2 ^ 4)"
    using fl_unit(1) [OF x0] by (simp only: u)
  then show ?thesis by (simp add: x_def)
qed

subsection \<open>The codec: conversions and error bounds\<close>

lemma fl_rel:
  assumes "1 / 2 ^ 40 \<le> x"
  shows "x * (1 - 1 / 2 ^ 52) \<le> fl x \<and> fl x \<le> x * (1 + 1 / 2 ^ 52)"
proof -
  have xp: "0 \<le> x" using assms by (meson order_trans zero_le_divide_1_iff zero_le_numeral zero_le_power)
  have "(1::real) / 2 ^ 100 \<le> (1 / 2 ^ 40) / 2 ^ 53" by simp
  also have "\<dots> \<le> x / 2 ^ 53" using assms by (rule divide_right_mono) simp
  finally have small: "1 / 2 ^ 100 \<le> x / 2 ^ 53" .
  have "\<bar>fl x - x\<bar> \<le> \<bar>x\<bar> / 2 ^ 53 + 1 / 2 ^ 100" by (rule fl_error)
  with small xp have "\<bar>fl x - x\<bar> \<le> x / 2 ^ 53 + x / 2 ^ 53" by simp
  also have "\<dots> = x * (1 / 2 ^ 52)" by simp
  finally have "\<bar>fl x - x\<bar> \<le> x * (1 / 2 ^ 52)" .
  then show ?thesis by (simp only: right_diff_distrib distrib_left mult_1_right) linarith
qed

lemma ln_2_bounds: "1 / 2 \<le> ln (2::real) \<and> ln (2::real) \<le> 1"
proof -
  have "ln (1 - 1 / 2) \<le> - (1 / 2 :: real)"
    by (rule ln_one_minus_pos_upper_bound) simp_all
  moreover have "ln (1 - 1 / 2 :: real) = - ln 2"
    by (simp add: ln_div)
  moreover have "ln (2::real) \<le> 2 - 1" by (rule ln_le_minus_one) simp
  ultimately show ?thesis by simp
qed

lemma ln_ratio_bound:
  fixes a b \<epsilon> :: real
  assumes a: "0 < a" and e: "0 \<le> \<epsilon>" "\<epsilon> \<le> 1 / 2"
    and lo: "a * (1 - \<epsilon>) \<le> b" and hi: "b \<le> a * (1 + \<epsilon>)"
  shows "0 < b \<and> \<bar>ln b - ln a\<bar> \<le> \<epsilon> + 2 * \<epsilon>\<^sup>2"
proof -
  define r where "r = b / a"
  have "(1 - \<epsilon>) * a \<le> b" using lo by (simp add: mult.commute [of a])
  then have r_lo: "1 - \<epsilon> \<le> r" using a by (simp only: r_def pos_le_divide_eq)
  have "b \<le> (1 + \<epsilon>) * a" using hi by (simp add: mult.commute [of a])
  then have r_hi: "r \<le> 1 + \<epsilon>" using a by (simp only: r_def pos_divide_le_eq)
  have rp: "0 < r" using r_lo e by simp
  then have bp: "0 < b" using a by (simp add: r_def zero_less_divide_iff)
  have eq: "ln b - ln a = ln r" using a bp by (simp add: r_def ln_div)
  have "ln r \<le> r - 1" using rp by (rule ln_le_minus_one)
  then have up: "ln r \<le> \<epsilon>" using r_hi by simp
  have "- \<epsilon> - 2 * \<epsilon>\<^sup>2 \<le> ln (1 - \<epsilon>)"
    using e by (rule ln_one_minus_pos_lower_bound)
  moreover have "ln (1 - \<epsilon>) \<le> ln r" using r_lo rp e by simp
  ultimately have dn: "- \<epsilon> - 2 * \<epsilon>\<^sup>2 \<le> ln r" by simp
  have "0 \<le> 2 * \<epsilon>\<^sup>2" by simp
  with up dn have "\<bar>ln r\<bar> \<le> \<epsilon> + 2 * \<epsilon>\<^sup>2" by linarith
  with bp eq show ?thesis by simp
qed


lemma double_max_big: "2 ^ 100 \<le> double_max"
proof -
  have "(2::real) ^ 100 \<le> 1 * 2 ^ 1023"
    by (simp only: mult_1) (rule power_increasing, simp_all)
  also have "\<dots> \<le> (2 - 1 / 2 ^ 52) * 2 ^ 1023"
    by (rule mult_right_mono) simp_all
  finally show ?thesis by (simp only: double_max_def)
qed

lemma finite_d_small: "\<bar>x\<bar> \<le> 2 ^ 100 \<Longrightarrow> finite_d x"
  using double_max_big by (simp add: finite_d_def)

lemma fl_literal: "0.0165 * (1 - 1 / 2 ^ 52) \<le> fl 0.0165 \<and> fl 0.0165 \<le> 0.0165 * (1 + 1 / 2 ^ 52)"
  by (rule fl_rel) simp

lemma quotient_close:
  fixes D d c x :: real
  assumes x: "0 \<le> x" and D: "D = 0.0165 * x"
    and d: "D * (1 - 1 / 2 ^ 52) \<le> d" "d \<le> D * (1 + 1 / 2 ^ 52)"
    and c: "0.0165 * (1 - 1 / 2 ^ 52) \<le> c" "c \<le> 0.0165 * (1 + 1 / 2 ^ 52)"
  shows "x * (1 - 1 / 2 ^ 50) \<le> d / c \<and> d / c \<le> x * (1 + 1 / 2 ^ 50)"
proof -
  have cp: "0 < c" using c(1) by simp
  have Dp: "0 \<le> D" using x D by simp
  have dp: "0 \<le> d"
  proof -
    have "0 \<le> D * (1 - 1 / 2 ^ 52)" using Dp by (intro mult_nonneg_nonneg) simp_all
    with d(1) show ?thesis by simp
  qed
  have "d / c \<le> (D * (1 + 1 / 2 ^ 52)) / (0.0165 * (1 - 1 / 2 ^ 52))"
    using dp d(2) c(1) by (intro frac_le) simp_all
  also have "\<dots> = x * ((1 + 1 / 2 ^ 52) / (1 - 1 / 2 ^ 52))" by (simp add: D)
  also have "\<dots> \<le> x * (1 + 1 / 2 ^ 50)"
    using x by (intro mult_left_mono) simp_all
  finally have up: "d / c \<le> x * (1 + 1 / 2 ^ 50)" .
  have "x * (1 - 1 / 2 ^ 50) \<le> x * ((1 - 1 / 2 ^ 52) / (1 + 1 / 2 ^ 52))"
    using x by (intro mult_left_mono) simp_all
  also have "\<dots> = (D * (1 - 1 / 2 ^ 52)) / (0.0165 * (1 + 1 / 2 ^ 52))" by (simp add: D)
  also have "\<dots> \<le> d / c"
  proof -
    have "0 \<le> D * (1 - 1 / 2 ^ 52)" using Dp by (intro mult_nonneg_nonneg) simp_all
    then show ?thesis using d(1) c(2) cp by (intro frac_le) simp_all
  qed
  finally have lo: "x * (1 - 1 / 2 ^ 50) \<le> d / c" .
  from lo up show ?thesis ..
qed


lemma log_quotient_close:
  fixes L l2 lx :: real
  assumes A: "\<bar>L - lx\<bar> \<le> 1 / 2 ^ 39" and E: "\<bar>l2 - ln 2\<bar> \<le> 1 / 2 ^ 40"
    and lx: "\<bar>lx\<bar> \<le> 16"
  shows "\<bar>L / l2 - lx / ln 2\<bar> \<le> 1 / 2 ^ 32"
proof -
  have ln2: "1 / 2 \<le> ln (2::real)" "ln (2::real) \<le> 1" using ln_2_bounds by simp_all
  have E': "ln 2 - 1 / 2 ^ 40 \<le> l2" using E by (simp only: abs_diff_le_iff)
  have "(1::real) / 4 \<le> 1 / 2 - 1 / 2 ^ 40" by simp
  then have l2: "1 / 4 \<le> l2" using E' ln2(1) by linarith
  have den: "1 / 8 \<le> \<bar>l2 * ln 2\<bar>"
  proof -
    have "(1 / 4) * (1 / 2) \<le> l2 * ln 2" using l2 ln2(1) by (intro mult_mono) simp_all
    then show ?thesis by simp
  qed
  have "\<bar>(L - lx) * ln 2\<bar> \<le> (1 / 2 ^ 39) * 1"
    unfolding abs_mult using A ln2 by (intro mult_mono) simp_all
  moreover have "\<bar>(l2 - ln 2) * lx\<bar> \<le> (1 / 2 ^ 40) * 16"
    unfolding abs_mult using E lx by (intro mult_mono) simp_all
  moreover have "(1 / 2 ^ 39) * 1 + (1 / 2 ^ 40) * 16 \<le> (1::real) / 2 ^ 35" by simp
  ultimately have num: "\<bar>(L - lx) * ln 2 - (l2 - ln 2) * lx\<bar> \<le> 1 / 2 ^ 35"
    by linarith
  have "L / l2 - lx / ln 2 = ((L - lx) * ln 2 - (l2 - ln 2) * lx) / (l2 * ln 2)"
    using l2 ln2(1) by (simp add: field_simps)
  then have "\<bar>L / l2 - lx / ln 2\<bar> = \<bar>(L - lx) * ln 2 - (l2 - ln 2) * lx\<bar> / \<bar>l2 * ln 2\<bar>"
    by (simp only: abs_divide)
  also have "\<dots> \<le> (1 / 2 ^ 35) / (1 / 8)"
    using num den by (intro frac_le) simp_all
  finally show ?thesis by simp
qed


lemma ln_range:
  fixes x :: real
  assumes "3 / 4 \<le> x" and "x \<le> 40960"
  shows "\<bar>ln x\<bar> \<le> 16"
proof -
  have xp: "0 < x" using assms(1) by simp
  have "x \<le> 2 ^ 16" using assms(2) by simp
  then have "ln x \<le> ln (2 ^ 16)" using xp by (subst ln_le_cancel_iff) simp_all
  also have "\<dots> = real 16 * ln (2::real)" using ln_realpow [of "2::real" 16] by simp
  also have "\<dots> \<le> 16" using ln_2_bounds by simp
  finally have up: "ln x \<le> 16" .
  have "- (1 / 4) - 2 * (1 / 4)\<^sup>2 \<le> ln (1 - 1 / 4 :: real)"
    by (rule ln_one_minus_pos_lower_bound) simp_all
  moreover have "ln (1 - 1 / 4 :: real) \<le> ln x" using assms(1) xp by simp
  ultimately have "- 1 \<le> ln x" by (simp add: power2_eq_square)
  with up show ?thesis by simp
qed

lemma raw_horizon_close:
  assumes acc: "log_accurate log_d"
    and x_lo: "3 / 4 \<le> (end_m s - start_m s) / 0.0165"
    and x_hi: "(end_m s - start_m s) / 0.0165 \<le> 40960"
  shows "\<exists>y. raw_horizon log_d s = to_uint16 (std_round y) \<and>
           \<bar>y - log 2 ((end_m s - start_m s) / 0.0165)\<bar> \<le> 1 / 2 ^ 30"
proof -
  define D where "D = end_m s - start_m s"
  define x where "x = D / 0.0165"
  define d where "d = fl D"
  define c where "c = fl 0.0165"
  define x' where "x' = fl (d / c)"
  define L where "L = log_d x'"
  define l2 where "l2 = log_d 2"
  define y where "y = fl (L / l2)"
  have xb: "3 / 4 \<le> x" "x \<le> 40960" using x_lo x_hi by (simp_all add: x_def D_def)
  have xp: "0 < x" "0 \<le> x" using xb(1) by simp_all
  have Dx: "D = 0.0165 * x" by (simp add: x_def)
  have Db: "1 / 2 ^ 40 \<le> D" "D \<le> 1000" using xb by (simp_all add: Dx)
  have d: "D * (1 - 1 / 2 ^ 52) \<le> d" "d \<le> D * (1 + 1 / 2 ^ 52)"
    using fl_rel [OF Db(1)] by (simp_all add: d_def)
  have c: "0.0165 * (1 - 1 / 2 ^ 52) \<le> c" "c \<le> 0.0165 * (1 + 1 / 2 ^ 52)"
    using fl_literal by (simp_all add: c_def)
  have z: "x * (1 - 1 / 2 ^ 50) \<le> d / c" "d / c \<le> x * (1 + 1 / 2 ^ 50)"
    using quotient_close [OF xp(2) Dx d c] by simp_all
  have zb: "1 / 2 ^ 40 \<le> d / c"
  proof -
    have "(1::real) / 2 ^ 40 \<le> (3 / 4) * (1 - 1 / 2 ^ 50)" by simp
    also have "\<dots> \<le> x * (1 - 1 / 2 ^ 50)" using xb(1) by (intro mult_right_mono) simp_all
    finally show ?thesis using z(1) by (rule order_trans)
  qed
  have x'z: "d / c * (1 - 1 / 2 ^ 52) \<le> x'" "x' \<le> d / c * (1 + 1 / 2 ^ 52)"
    using fl_rel [OF zb] by (simp_all add: x'_def)
  have x'lo: "x * (1 - 1 / 2 ^ 49) \<le> x'"
  proof -
    have "x * (1 - 1 / 2 ^ 49) \<le> x * ((1 - 1 / 2 ^ 50) * (1 - 1 / 2 ^ 52))"
      using xp(2) by (intro mult_left_mono) simp_all
    also have "\<dots> = x * (1 - 1 / 2 ^ 50) * (1 - 1 / 2 ^ 52)" by simp
    also have "\<dots> \<le> d / c * (1 - 1 / 2 ^ 52)" using z(1) by (intro mult_right_mono) simp_all
    finally show ?thesis using x'z(1) by (rule order_trans)
  qed
  have x'hi: "x' \<le> x * (1 + 1 / 2 ^ 49)"
  proof -
    have "x' \<le> d / c * (1 + 1 / 2 ^ 52)" by (rule x'z(2))
    also have "\<dots> \<le> x * (1 + 1 / 2 ^ 50) * (1 + 1 / 2 ^ 52)"
      using z(2) by (intro mult_right_mono) simp_all
    also have "\<dots> = x * ((1 + 1 / 2 ^ 50) * (1 + 1 / 2 ^ 52))" by simp
    also have "\<dots> \<le> x * (1 + 1 / 2 ^ 49)" using xp(2) by (intro mult_left_mono) simp_all
    finally show ?thesis .
  qed
  have lnx': "0 < x' \<and> \<bar>ln x' - ln x\<bar> \<le> 1 / 2 ^ 49 + 2 * (1 / 2 ^ 49)\<^sup>2"
    using xp(1) x'lo x'hi by (intro ln_ratio_bound) simp_all
  then have x'p: "0 < x'" and lnc: "\<bar>ln x' - ln x\<bar> \<le> 1 / 2 ^ 48"
    by (simp_all add: power2_eq_square)
  have x'b: "1 / 2 \<le> x'" "x' \<le> 2 ^ 16"
  proof -
    have "(1::real) / 2 \<le> (3 / 4) * (1 - 1 / 2 ^ 49)" by simp
    also have "\<dots> \<le> x * (1 - 1 / 2 ^ 49)" using xb(1) by (intro mult_right_mono) simp_all
    finally show "1 / 2 \<le> x'" using x'lo by (rule order_trans)
    have "x * (1 + 1 / 2 ^ 49) \<le> 40960 * (1 + 1 / 2 ^ 49)"
      using xb(2) by (intro mult_right_mono) simp_all
    also have "\<dots> \<le> (2::real) ^ 16" by simp
    finally have "x * (1 + 1 / 2 ^ 49) \<le> 2 ^ 16" .
    with x'hi show "x' \<le> 2 ^ 16" by (rule order_trans)
  qed
  have LA: "\<bar>L - ln x'\<bar> \<le> 1 / 2 ^ 40"
    using acc x'b by (simp add: log_accurate_def L_def)
  have "(1::real) / 2 ^ 40 + 1 / 2 ^ 48 \<le> 1 / 2 ^ 39" by simp
  with LA lnc have A: "\<bar>L - ln x\<bar> \<le> 1 / 2 ^ 39" by linarith
  have E: "\<bar>l2 - ln 2\<bar> \<le> 1 / 2 ^ 40"
    using acc by (simp add: log_accurate_def l2_def)
  have lx: "\<bar>ln x\<bar> \<le> 16" using xb by (rule ln_range)
  have q: "\<bar>L / l2 - ln x / ln 2\<bar> \<le> 1 / 2 ^ 32"
    using A E lx by (rule log_quotient_close)
  have l2p: "l2 \<noteq> 0"
  proof -
    have "ln 2 - 1 / 2 ^ 40 \<le> l2" using E by (simp only: abs_diff_le_iff)
    moreover have "(0::real) < 1 / 2 - 1 / 2 ^ 40" by simp
    ultimately show ?thesis using ln_2_bounds by linarith
  qed
  have lgb: "\<bar>ln x / ln 2\<bar> \<le> 32"
  proof -
    have "\<bar>ln x / ln 2\<bar> = \<bar>ln x\<bar> / \<bar>ln (2::real)\<bar>" by (simp only: abs_divide)
    also have "\<dots> \<le> 16 / (1 / 2)"
      using lx ln_2_bounds by (intro frac_le) simp_all
    finally show ?thesis by simp
  qed
  have yyb: "\<bar>L / l2\<bar> \<le> 33"
  proof -
    have "(32::real) + 1 / 2 ^ 32 \<le> 33" by simp
    with q lgb show ?thesis by linarith
  qed
  have "\<bar>y - L / l2\<bar> \<le> \<bar>L / l2\<bar> / 2 ^ 53 + 1 / 2 ^ 100"
    unfolding y_def by (rule fl_error)
  moreover have "\<bar>L / l2\<bar> / 2 ^ 53 \<le> 33 / 2 ^ 53" using yyb by (rule divide_right_mono) simp
  moreover have "(33::real) / 2 ^ 53 + 1 / 2 ^ 100 + 1 / 2 ^ 32 \<le> 1 / 2 ^ 30" by simp
  ultimately have close: "\<bar>y - ln x / ln 2\<bar> \<le> 1 / 2 ^ 30" using q by linarith
  have fd: "finite_d d"
  proof (rule finite_d_small)
    have "d \<le> 1000 * (1 + 1 / 2 ^ 52)"
      using d(2) Db(2) by (meson mult_right_mono order_trans add_nonneg_nonneg zero_le_one zero_le_divide_1_iff zero_le_numeral zero_le_power)
    moreover have "0 \<le> d"
    proof -
      have "0 \<le> D * (1 - 1 / 2 ^ 52)" using Db(1) by (intro mult_nonneg_nonneg) simp_all
      with d(1) show ?thesis by simp
    qed
    moreover have "(1000::real) * (1 + 1 / 2 ^ 52) \<le> 2 ^ 100" by simp
    ultimately show "\<bar>d\<bar> \<le> 2 ^ 100" by linarith
  qed
  have fx: "finite_d x'"
  proof (rule finite_d_small)
    have "(2::real) ^ 16 \<le> 2 ^ 100" by simp
    with x'b x'p show "\<bar>x'\<bar> \<le> 2 ^ 100" by linarith
  qed
  have "raw_horizon log_d s = to_uint16 (std_round y)"
    using fd fx x'p l2p unfolding y_def L_def l2_def x'_def c_def d_def D_def
    by (simp add: raw_horizon_def sub_d_def div_d_def std_log_def Let_def)
  with close show ?thesis
    by (auto simp: log_def x_def D_def)
qed


lemma std_round_near:
  assumes "\<bar>y - real_of_int k\<bar> < 1 / 2"
  shows "std_round y = real_of_int k"
proof (cases "0 \<le> y")
  case True
  have b: "real_of_int k - 1 / 2 < y" "y < real_of_int k + 1 / 2"
    using assms by (simp_all only: abs_diff_less_iff)
  have "\<lfloor>y + 1 / 2\<rfloor> = k" using b by (intro floor_unique) linarith+
  with True show ?thesis by (simp add: std_round_def)
next
  case False
  have b: "real_of_int k - 1 / 2 < y" "y < real_of_int k + 1 / 2"
    using assms by (simp_all only: abs_diff_less_iff)
  have "\<lceil>y - 1 / 2\<rceil> = k" using b by (intro ceiling_unique) linarith+
  with False show ?thesis by (simp add: std_round_def)
qed


lemma trunc_to_int_of_int: "trunc_to_int (real_of_int i) = i"
  by (simp add: trunc_to_int_def)

lemma to_int16_of_int:
  "- 32768 \<le> i \<Longrightarrow> i \<le> 32767 \<Longrightarrow> to_int16 (real_of_int i) = Some (word_of_int i)"
  unfolding to_int16_def trunc_to_int_of_int by simp

lemma to_uint16_of_int:
  "0 \<le> i \<Longrightarrow> i \<le> 65535 \<Longrightarrow> to_uint16 (real_of_int i) = Some (word_of_int i)"
  unfolding to_uint16_def trunc_to_int_of_int by simp

lemma value_lx_exact: "value_lx r = real_of_int (50000 + 390 * sint (value_raw r))"
proof -
  define i where "i = sint (value_raw r)"
  have "- (2 ^ 7) \<le> i" "i < 2 ^ 7"
    unfolding i_def using sint_ge [of "value_raw r"] sint_lt [of "value_raw r"] by simp_all
  then have "\<bar>50000 + 390 * i\<bar> < 2 ^ 53" by simp
  then have "fl (real_of_int (50000 + 390 * i)) = real_of_int (50000 + 390 * i)"
    by (rule fl_of_int)
  then show ?thesis by (simp add: value_lx_def add_d_def i_def)
qed

lemma raw_value_decoded:
  "raw_value (Sample_of_raw now r) = Some (word_of_int (sint (value_raw r)))"
proof -
  define i where "i = sint (value_raw r)"
  have ib: "- (2 ^ 7) \<le> i" "i < 2 ^ 7"
    unfolding i_def using sint_ge [of "value_raw r"] sint_lt [of "value_raw r"] by simp_all
  have "\<bar>390 * i\<bar> < 2 ^ 53" using ib by simp
  then have "fl (real_of_int (390 * i)) = real_of_int (390 * i)" by (rule fl_of_int)
  moreover have "value_m (Sample_of_raw now r) - 50000 = real_of_int (390 * i)"
    by (simp add: Sample_of_raw_def value_lx_exact i_def)
  ultimately have s: "sub_d (value_m (Sample_of_raw now r)) 50000 = real_of_int (390 * i)"
    by (simp only: sub_d_def)
  have "\<bar>i\<bar> < 2 ^ 53" using ib by simp
  then have "fl (real_of_int i) = real_of_int i" by (rule fl_of_int)
  moreover have "real_of_int (390 * i) / 390 = real_of_int i" by simp
  ultimately have "div_d (real_of_int (390 * i)) 390 = real_of_int i"
    by (simp only: div_d_def)
  moreover have "to_int16 (real_of_int i) = Some (word_of_int i)"
    using ib by (intro to_int16_of_int) simp_all
  ultimately show ?thesis by (simp only: raw_value_def s i_def)
qed




lemma decoded_duration:
  fixes t :: real
  assumes t: "\<bar>t\<bar> \<le> 2 ^ 44" and n: "n \<le> 15"
  defines "P \<equiv> (2::real) ^ n"
  defines "E \<equiv> add_d t (mul_d (fl 0.0165) (real (2 ^ n)))"
  shows "P * (1 - 3 / 25) \<le> (E - t) / 0.0165 \<and> (E - t) / 0.0165 \<le> P * (1 + 3 / 25)"
proof -
  define c where "c = fl 0.0165"
  define w where "w = c * P"
  define hs where "hs = fl w"
  have P1: "1 \<le> P" by (simp add: P_def)
  have "P \<le> 2 ^ 15" unfolding P_def using n by (intro power_increasing) simp_all
  then have P2: "P \<le> 32768" by simp
  have c: "0.0165 * (1 - 1 / 2 ^ 52) \<le> c" "c \<le> 0.0165 * (1 + 1 / 2 ^ 52)"
    using fl_literal by (simp_all add: c_def)
  have w: "0.0165 * (1 - 1 / 2 ^ 52) * P \<le> w" "w \<le> 0.0165 * (1 + 1 / 2 ^ 52) * P"
    unfolding w_def using c P1 by (simp_all add: mult_right_mono)
  have "(1::real) / 2 ^ 40 \<le> 0.0165 * (1 - 1 / 2 ^ 52) * 1" by simp
  also have "\<dots> \<le> 0.0165 * (1 - 1 / 2 ^ 52) * P" using P1 by (intro mult_left_mono) simp_all
  finally have "1 / 2 ^ 40 \<le> w" using w(1) by (rule order_trans)
  then have hs: "w * (1 - 1 / 2 ^ 52) \<le> hs" "hs \<le> w * (1 + 1 / 2 ^ 52)"
    using fl_rel [of w] by (simp_all add: hs_def)
  have hs_lo: "0.0165 * P - 1 / 2 ^ 30 \<le> hs"
  proof -
    have "0.0165 * P - 1 / 2 ^ 30 \<le> 0.0165 * P - (0.0165 * (1 / 2 ^ 51)) * P"
      using P2 by simp
    also have "\<dots> \<le> (0.0165 * (1 - 1 / 2 ^ 52) * (1 - 1 / 2 ^ 52)) * P"
      using P1 by (simp add: algebra_simps)
    also have "\<dots> = (0.0165 * (1 - 1 / 2 ^ 52) * P) * (1 - 1 / 2 ^ 52)" by simp
    also have "\<dots> \<le> w * (1 - 1 / 2 ^ 52)" using w(1) by (intro mult_right_mono) simp_all
    finally show ?thesis using hs(1) by (rule order_trans)
  qed
  have hs_hi: "hs \<le> 0.0165 * P + 1 / 2 ^ 30"
  proof -
    have "hs \<le> w * (1 + 1 / 2 ^ 52)" by (rule hs(2))
    also have "\<dots> \<le> (0.0165 * (1 + 1 / 2 ^ 52) * P) * (1 + 1 / 2 ^ 52)"
      using w(2) by (intro mult_right_mono) simp_all
    also have "\<dots> = 0.0165 * P + (0.0165 * ((1 + 1 / 2 ^ 52) * (1 + 1 / 2 ^ 52) - 1)) * P"
      by (simp add: algebra_simps)
    also have "\<dots> \<le> 0.0165 * P + 1 / 2 ^ 30"
      using P2 by simp
    finally show ?thesis .
  qed
  have Eeq: "E = fl (t + hs)"
    by (simp add: E_def add_d_def mul_d_def hs_def w_def c_def P_def)
  have "\<bar>E - (t + hs)\<bar> \<le> \<bar>t + hs\<bar> / 2 ^ 53 + 1 / 2 ^ 100"
    unfolding Eeq by (rule fl_error)
  moreover have "\<bar>t + hs\<bar> \<le> 2 ^ 44 + 1000"
  proof -
    have "(0.0165::real) * 32768 + 1 / 2 ^ 30 \<le> 1000" by simp
    moreover have "0.0165 * P \<le> 0.0165 * 32768" using P2 by simp
    moreover have "(0::real) \<le> 0.0165 * 1 - 1 / 2 ^ 30" by simp
    moreover have "0.0165 * 1 \<le> 0.0165 * P" using P1 by simp
    ultimately show ?thesis using t hs_lo hs_hi by linarith
  qed
  then have "\<bar>t + hs\<bar> / 2 ^ 53 \<le> (2 ^ 44 + 1000) / 2 ^ 53" by (rule divide_right_mono) simp
  moreover have "((2::real) ^ 44 + 1000) / 2 ^ 53 + 1 / 2 ^ 100 \<le> 1954 / 10 ^ 6 - 1 / 2 ^ 30" by simp
  ultimately have Ed: "\<bar>E - (t + hs)\<bar> \<le> 1954 / 10 ^ 6 - 1 / 2 ^ 30" by linarith
  have Dlo: "0.0165 * P - 1954 / 10 ^ 6 \<le> E - t" and Dhi: "E - t \<le> 0.0165 * P + 1954 / 10 ^ 6"
    using Ed hs_lo hs_hi by linarith+
  have "(1954::real) / 10 ^ 6 \<le> 0.0165 * (3 / 25) * 1" by simp
  also have "\<dots> \<le> 0.0165 * (3 / 25) * P" using P1 by (intro mult_left_mono) simp_all
  finally have k: "1954 / 10 ^ 6 \<le> 0.0165 * (3 / 25) * P" .
  have "0.0165 * (P * (1 - 3 / 25)) \<le> E - t"
    using Dlo k by (simp add: algebra_simps)
  then have lo: "P * (1 - 3 / 25) \<le> (E - t) / 0.0165"
    by (simp add: pos_le_divide_eq mult.commute)
  have "E - t \<le> 0.0165 * (P * (1 + 3 / 25))"
    using Dhi k by (simp add: algebra_simps)
  then have hi: "(E - t) / 0.0165 \<le> P * (1 + 3 / 25)"
    by (simp add: pos_divide_le_eq mult.commute)
  from lo hi show ?thesis ..
qed


lemma log2_near_power:
  fixes x :: real
  assumes "2 ^ n * (1 - 3 / 25) \<le> x" and "x \<le> 2 ^ n * (1 + 3 / 25)"
  shows "\<bar>log 2 x - real n\<bar> \<le> 3 / 10"
proof -
  have b: "0 < x \<and> \<bar>ln x - ln (2 ^ n)\<bar> \<le> 3 / 25 + 2 * (3 / 25)\<^sup>2"
    using assms by (intro ln_ratio_bound) simp_all
  have lnP: "ln ((2::real) ^ n) = real n * ln 2" using ln_realpow [of "2::real" n] by simp
  have ln2: "1 / 2 \<le> ln (2::real)" using ln_2_bounds by simp
  have "log 2 x - real n = (ln x - real n * ln 2) / ln 2"
    using ln2 by (simp add: log_def field_simps)
  then have "\<bar>log 2 x - real n\<bar> = \<bar>ln x - real n * ln 2\<bar> / \<bar>ln (2::real)\<bar>"
    by (simp only: abs_divide)
  also have "\<dots> \<le> (3 / 25 + 2 * (3 / 25)\<^sup>2) / (1 / 2)"
    using b ln2 by (intro frac_le) (simp_all add: lnP)
  also have "\<dots> \<le> 3 / 10" by (simp add: power2_eq_square)
  finally show ?thesis .
qed

lemma raw_horizon_decoded:
  assumes acc: "log_accurate log_d" and t: "\<bar>now\<bar> \<le> 2 ^ 44"
  shows "raw_horizon log_d (Sample_of_raw now r) = Some (word_of_int (int (unat (horizon r))))"
proof -
  define n where "n = unat (horizon r)"
  define s where "s = Sample_of_raw now r"
  define x where "x = (end_m s - start_m s) / 0.0165"
  have "n < 2 ^ 4"
    unfolding n_def using unsigned_less [of "horizon r", where 'a=nat] by simp
  then have n: "n \<le> 15" by simp
  have se: "end_m s - start_m s = add_d now (mul_d (fl 0.0165) (real (2 ^ n))) - now"
    by (simp add: s_def Sample_of_raw_def horizon_s_def n_def)
  have xb: "2 ^ n * (1 - 3 / 25) \<le> x" "x \<le> 2 ^ n * (1 + 3 / 25)"
    using decoded_duration [OF t n] by (simp_all add: x_def se)
  have P1: "(1::real) \<le> 2 ^ n" by simp
  have "(2::real) ^ n \<le> 2 ^ 15" using n by (intro power_increasing) simp_all
  then have P2: "(2::real) ^ n \<le> 32768" by simp
  have "(3::real) / 4 \<le> 1 * (1 - 3 / 25)" by simp
  also have "\<dots> \<le> 2 ^ n * (1 - 3 / 25)" using P1 by (intro mult_right_mono) simp_all
  finally have x1: "3 / 4 \<le> x" using xb(1) by (rule order_trans)
  have "2 ^ n * (1 + 3 / 25) \<le> 32768 * (1 + 3 / 25 :: real)"
    using P2 by (intro mult_right_mono) simp_all
  also have "\<dots> \<le> 40960" by simp
  finally have x2: "x \<le> 40960" using xb(2) by (rule order_trans [rotated])
  obtain y where y: "raw_horizon log_d s = to_uint16 (std_round y)"
    and yc: "\<bar>y - log 2 x\<bar> \<le> 1 / 2 ^ 30"
    using raw_horizon_close [OF acc, of s] x1 x2 unfolding x_def by blast
  have "\<bar>log 2 x - real n\<bar> \<le> 3 / 10" using xb by (rule log2_near_power)
  moreover have "(3::real) / 10 + 1 / 2 ^ 30 < 1 / 2" by simp
  ultimately have "\<bar>y - real n\<bar> < 1 / 2" using yc by linarith
  then have "\<bar>y - real_of_int (int n)\<bar> < 1 / 2" by simp
  then have "std_round y = real_of_int (int n)" by (rule std_round_near)
  moreover have "to_uint16 (real_of_int (int n)) = Some (word_of_int (int n))"
    using n by (intro to_uint16_of_int) simp_all
  ultimately show ?thesis using y by (simp only: s_def n_def)
qed

lemma raw_Sample_of_raw:
  assumes "log_accurate log_d" and "\<bar>now\<bar> \<le> 2 ^ 44"
  shows "raw log_d (Sample_of_raw now r) = Some r"
proof -
  define s where "s = Sample_of_raw now r"
  have "raw log_d s = Some \<lparr> confidence = ucast (confidence_m s), clear = of_bool (clear_m s),
      value_raw = ucast (word_of_int (sint (value_raw r)) :: 16 word), sign = of_bool (sign_m s),
      horizon = ucast (word_of_int (int (unat (horizon r))) :: 16 word) \<rparr>"
    unfolding s_def
    by (simp only: raw_def raw_value_decoded raw_horizon_decoded [OF assms] option.case)
  also have "ucast (word_of_int (sint (value_raw r)) :: 16 word) = value_raw r"
    by (rule ucast_value)
  also have "ucast (word_of_int (int (unat (horizon r))) :: 16 word) = horizon r"
    by (rule ucast_horizon)
  also have "ucast (confidence_m s) = confidence r"
    by (simp add: s_def Sample_of_raw_def ucast_confidence)
  also have "of_bool (clear_m s) = clear r"
    by (simp add: s_def Sample_of_raw_def of_bool_neq_0)
  also have "of_bool (sign_m s) = sign r"
    by (simp add: s_def Sample_of_raw_def of_bool_neq_0)
  finally show ?thesis by (simp add: s_def)
qed

lemma log_accurate_ln: "log_accurate ln"
  by (simp add: log_accurate_def)

subsection \<open>The codec: decoding and encoding again\<close>

text \<open>
  Claim C9, as the code has it. The sample \<open>e\<close> is decoded from two bytes and a
  time stamp \<open>t\<close> of magnitude at most \<open>2^44\<close>, and \<open>std::log\<close> is accurate in the
  sense of \<open>log_accurate\<close>. Then encoding \<open>e\<close> has a result, and decoding that at
  \<open>e\<close>'s start gives a sample with \<open>e\<close>'s direction, confidence and clear flag, a
  value within 390 of \<open>e\<close>'s, and \<open>e\<close>'s end; value and end come back exactly, so
  the decoded sample is \<open>e\<close> itself.
\<close>

theorem decode_encode_roundtrip:
  assumes "log_accurate log_d" and "\<bar>t\<bar> \<le> 2 ^ 44" and "e = from_raw t b0 b1"
  shows "\<exists>e'. map_option (Sample_of_raw (start_m e)) (raw log_d e) = Some e' \<and>
           sign_m e' = sign_m e \<and> confidence_m e' = confidence_m e \<and>
           clear_m e' = clear_m e \<and>
           \<bar>value_m e' - value_m e\<bar> < 390 \<and> value_m e' = value_m e \<and>
           end_m e' = end_m e \<and> e' = e"
proof -
  have "raw log_d e = Some (RawSample_of_bytes b0 b1)"
    unfolding assms(3) from_raw_def using assms(1,2) by (rule raw_Sample_of_raw)
  moreover have "Sample_of_raw (start_m e) (RawSample_of_bytes b0 b1) = e"
    unfolding assms(3) from_raw_def by (simp add: Sample_of_raw_def)
  ultimately show ?thesis by simp
qed

text \<open>The packet of \<open>test_deserialise\<close>, decoded at 0.5, with the exact logarithm.\<close>

theorem decode_encode_roundtrip_witness:
  "log_accurate ln \<and> \<bar>0.5 :: real\<bar> \<le> 2 ^ 44 \<and>
   RawSample_of_bytes 0x82 0x57 =
     \<lparr> confidence = 2, clear = 0, value_raw = 0xF0, sign = 0, horizon = 5 \<rparr> \<and>
   value_m (from_raw 0.5 0x82 0x57) = 43760 \<and>
   map_option (Sample_of_raw 0.5) (raw ln (from_raw 0.5 0x82 0x57)) =
     Some (from_raw 0.5 0x82 0x57)"
proof -
  have r: "RawSample_of_bytes 0x82 0x57 =
      \<lparr> confidence = 2, clear = 0, value_raw = 0xF0, sign = 0, horizon = 5 \<rparr>"
    by (simp add: RawSample_of_bytes_def)
  have v: "value_m (from_raw 0.5 0x82 0x57) = 43760"
    by (simp add: from_raw_def Sample_of_raw_def r value_lx_exact)
  have s: "start_m (from_raw 0.5 0x82 0x57) = 0.5"
    by (simp add: from_raw_def Sample_of_raw_def)
  have "\<bar>0.5 :: real\<bar> \<le> 2 ^ 44" by simp
  then have "map_option (Sample_of_raw (start_m (from_raw 0.5 0x82 0x57)))
      (raw ln (from_raw 0.5 0x82 0x57)) = Some (from_raw 0.5 0x82 0x57)"
    using decode_encode_roundtrip [OF log_accurate_ln _ refl, of "0.5" "0x82" "0x57"]
    by auto
  then have "map_option (Sample_of_raw 0.5) (raw ln (from_raw 0.5 0x82 0x57)) =
      Some (from_raw 0.5 0x82 0x57)"
    by (simp only: s)
  with log_accurate_ln r v show ?thesis by simp
qed

text \<open>
  The claim as the specification words it (every time stamp) fails for large
  time stamps: at \<open>t = 2^48\<close> the doubles are 1/16 apart, so the end of a packet
  with the shortest horizon is rounded back onto its start. Encoding that sample
  takes \<open>std::log\<close> of 0 and converts the result to \<open>uint16_t\<close>, which is
  undefined: \<open>raw\<close> has no result, whatever the library's logarithm.
\<close>

lemma horizon_s_0: "0 \<le> horizon_s (RawSample_of_bytes 0 0) \<and> horizon_s (RawSample_of_bytes 0 0) < 1 / 32"
proof -
  define c where "c = fl 0.0165"
  have c: "0.0165 * (1 - 1 / 2 ^ 52) \<le> c" "c \<le> 0.0165 * (1 + 1 / 2 ^ 52)"
    using fl_literal by (simp_all add: c_def)
  have "(1::real) / 2 ^ 40 \<le> 0.0165 * (1 - 1 / 2 ^ 52)" by simp
  then have "1 / 2 ^ 40 \<le> c" using c(1) by (rule order_trans)
  then have h: "c * (1 - 1 / 2 ^ 52) \<le> fl c" "fl c \<le> c * (1 + 1 / 2 ^ 52)"
    using fl_rel [of c] by simp_all
  have "0 \<le> c * (1 - 1 / 2 ^ 52)" using c(1) by (intro mult_nonneg_nonneg) simp_all
  then have lo: "0 \<le> fl c" using h(1) by (rule order_trans)
  have "fl c \<le> c * (1 + 1 / 2 ^ 52)" by (rule h(2))
  also have "\<dots> \<le> (0.0165 * (1 + 1 / 2 ^ 52)) * (1 + 1 / 2 ^ 52)"
    using c(2) by (intro mult_right_mono) simp_all
  also have "\<dots> < 1 / 32" by simp
  finally have hi: "fl c < 1 / 32" .
  have "horizon_s (RawSample_of_bytes 0 0) = fl c"
    by (simp add: horizon_s_def RawSample_of_bytes_def mul_d_def c_def)
  with lo hi show ?thesis by simp
qed

lemma end_at_2_48: "end_m (from_raw (2 ^ 48) 0 0) = 2 ^ 48"
  using horizon_s_0 fl_near_power [of "horizon_s (RawSample_of_bytes 0 0)"]
  by (simp add: from_raw_def Sample_of_raw_def add_d_def)

lemma raw_horizon_at_2_48: "raw_horizon log_d (from_raw (2 ^ 48) 0 0) = None"
proof -
  have s: "start_m (from_raw (2 ^ 48) 0 0) = 2 ^ 48"
    by (simp add: from_raw_def Sample_of_raw_def)
  have f: "finite_d 0" by (rule finite_d_small) simp
  show ?thesis
    using f s end_at_2_48
    by (simp add: raw_horizon_def sub_d_def div_d_def fl_0 std_log_def)
qed

theorem roundtrip_large_time_counterexample:
  "start_m (from_raw (2 ^ 48) 0 0) = 2 ^ 48 \<and> end_m (from_raw (2 ^ 48) 0 0) = 2 ^ 48 \<and>
   sub_d (end_m (from_raw (2 ^ 48) 0 0)) (start_m (from_raw (2 ^ 48) 0 0)) = 0 \<and>
   (\<forall>log_d. raw log_d (from_raw (2 ^ 48) 0 0) = None)"
proof -
  have s: "start_m (from_raw (2 ^ 48) 0 0) = 2 ^ 48"
    by (simp add: from_raw_def Sample_of_raw_def)
  have "raw log_d (from_raw (2 ^ 48) 0 0) = None" for log_d
    using raw_horizon_at_2_48 [of log_d] by (simp add: raw_def split: option.split)
  then show ?thesis using s end_at_2_48 by (simp add: sub_d_def fl_0)
qed

subsection \<open>The codec: what encoding computes\<close>




text \<open>
  These are the fields of the packet that \<open>ptest_override_confidence\<close> sends for
  this sample (bytes 0xa1, 0x5d, value 20360).
\<close>

lemma ptest_override_confidence_bytes:
  "RawSample_of_bytes 0xa1 0x5d =
     \<lparr> confidence = 1, clear = 0, value_raw = 0xB4, sign = 1, horizon = 5 \<rparr> \<and>
   value_lx (RawSample_of_bytes 0xa1 0x5d) = 20360"
  by (simp add: RawSample_of_bytes_def value_lx_exact)


end
